theory Spec2Isabelle
  imports Main "HOL-Library.Word"
begin

section \<open>Go values handled by \<open>chatpb/merge.go\<close>\<close>

text \<open>
  \<open>ChatChannelData.Merge\<close> mutates its receiver in place and builds its list with the
  Go built-ins \<open>append\<close> and the slice expressions \<open>s[low:]\<close> and \<open>s[:high]\<close>. A Go
  slice is a window (offset, length, capacity) onto a backing array; \<open>append\<close> writes
  into the spare capacity of that array when there is room and allocates a new array
  otherwise, and \<open>s[:high]\<close> is checked against the capacity, not the length. The model
  therefore keeps an explicit heap of message objects and backing arrays.
\<close>

type_synonym addr = nat

text \<open>A value of type \<open>*ChatMessage\<close>: \<open>None\<close> is the nil pointer.\<close>

type_synonym msgptr = "addr option"

text \<open>
  A slice header. \<open>array = None\<close> is a slice without storage (the nil slice and the empty
  literal \<open>[]*ChatMessage{}\<close>); otherwise the slice shows the elements
  \<open>offset ..< offset + len\<close> of its backing array and may grow up to \<open>offset + cap\<close>.
\<close>

record slice =
  array :: "addr option"
  offset :: nat
  len :: nat
  cap :: nat

text \<open>
  The generated struct \<open>ChatChannelData\<close>: the repeated field \<open>ChatMessages\<close>, and the
  remaining (protobuf-internal) fields of the struct, which \<open>Merge\<close> never names, kept
  abstract in \<open>internal\<close>.
\<close>

record 'o ChatChannelData =
  ChatMessages :: slice
  internal :: 'o

text \<open>
  Modelled from the spec: the struct \<open>channeldpb.ChannelDataMergeOptions\<close> is declared
  outside the files at hand. Its four fields are the ones the sources name; their types
  are those of section 3 of the specification (MergeOptions), where the size limit is a
  \<open>uint32\<close>.
\<close>

record ChannelDataMergeOptions =
  ShouldReplaceList :: bool
  ListSizeLimit :: "32 word"
  TruncateTop :: bool
  ShouldCheckRemovableMapField :: bool

text \<open>
  The heap: the \<open>ChatChannelData\<close> objects, the backing arrays, and the next unused array
  address (arrays are allocated at increasing addresses).
\<close>

record 'o heap =
  objects :: "addr \<rightharpoonup> 'o ChatChannelData"
  arrays :: "addr \<rightharpoonup> msgptr list"
  fresh :: addr

text \<open>
  A \<open>proto.Message\<close> interface value: either a \<open>*ChatChannelData\<close> (possibly the nil
  pointer of that type), or a value of any other dynamic type (the nil interface included),
  on which the type assertion \<open>src.(*ChatChannelData)\<close> fails.
\<close>

datatype 'x Message = ChatChannelDataPtr "addr option" | OtherMessage 'x

datatype error = SrcIsNotAChatChannelData

datatype panic = NilPointerDereference | SliceBoundsOutOfRange

text \<open>
  How a call ends: it returns Go's \<open>error\<close> (\<open>None\<close> is \<open>nil\<close>), or it panics. Both carry
  the heap as the call left it.
\<close>

datatype 'h outcome = Returned "error option" 'h | Panicked panic 'h

subsection \<open>Built-ins\<close>

text \<open>The elements a slice shows, as \<open>src...\<close> and \<open>range\<close> read them.\<close>

definition elems :: "'o heap \<Rightarrow> slice \<Rightarrow> msgptr list" where
  "elems h s =
     (case array s of
        None \<Rightarrow> []
      | Some a \<Rightarrow> (case arrays h a of
                    None \<Rightarrow> []
                  | Some A \<Rightarrow> take (len s) (drop (offset s) A)))"

text \<open>The literal \<open>[]*ChatMessage{}\<close>.\<close>

definition empty_slice :: slice where
  "empty_slice = \<lparr>array = None, offset = 0, len = 0, cap = 0\<rparr>"

text \<open>
  \<open>append(s, xs...)\<close>. With room for the new elements in the capacity of \<open>s\<close> the
  backing array is written in place, right after the elements of \<open>s\<close>, and the result
  shares it. Otherwise a new array is allocated that holds the elements of \<open>s\<close>, then
  \<open>xs\<close>, then zero values; the language only promises that it is large enough, so the
  spare capacity the runtime adds beyond the needed length is the parameter \<open>spare\<close>
  (given the old capacity and the needed length).
\<close>

definition go_append ::
  "(nat \<Rightarrow> nat \<Rightarrow> nat) \<Rightarrow> 'o heap \<Rightarrow> slice \<Rightarrow> msgptr list \<Rightarrow> slice \<times> 'o heap" where
  "go_append spare h s xs =
     (let n = len s + length xs in
      if n \<le> cap s then
        (case array s of
           None \<Rightarrow> (s\<lparr>len := n\<rparr>, h)
         | Some a \<Rightarrow>
             (case arrays h a of
                None \<Rightarrow> (s\<lparr>len := n\<rparr>, h)
              | Some A \<Rightarrow>
                  (s\<lparr>len := n\<rparr>,
                   h\<lparr>arrays := (arrays h)
                        (a \<mapsto> take (offset s + len s) A @ xs @ drop (offset s + n) A)\<rparr>)))
      else
        (let c = n + spare (cap s) n; a = fresh h in
         (\<lparr>array = Some a, offset = 0, len = n, cap = c\<rparr>,
          h\<lparr>arrays := (arrays h)(a \<mapsto> elems h s @ xs @ replicate (c - n) None),
            fresh := Suc a\<rparr>)))"

text \<open>\<open>s[low:]\<close> with \<open>low\<close> of type \<open>int\<close>: in range when \<open>0 \<le> low \<le> len(s)\<close>.\<close>

definition slice_from :: "slice \<Rightarrow> int \<Rightarrow> panic + slice" where
  "slice_from s low =
     (if 0 \<le> low \<and> low \<le> int (len s)
      then Inr (s\<lparr>offset := offset s + nat low, len := len s - nat low, cap := cap s - nat low\<rparr>)
      else Inl SliceBoundsOutOfRange)"

text \<open>\<open>s[:high]\<close> with \<open>high\<close> unsigned: in range when \<open>high \<le> cap(s)\<close>.\<close>

definition slice_to :: "slice \<Rightarrow> nat \<Rightarrow> panic + slice" where
  "slice_to s high =
     (if high \<le> cap s then Inr (s\<lparr>len := high\<rparr>) else Inl SliceBoundsOutOfRange)"

text \<open>
  Reading through a \<open>*ChatChannelData\<close>: \<open>None\<close> when the pointer is nil (or names no
  object of the heap), where Go panics.
\<close>

definition deref :: "'o heap \<Rightarrow> addr option \<Rightarrow> 'o ChatChannelData option" where
  "deref h p = (case p of None \<Rightarrow> None | Some a \<Rightarrow> objects h a)"

text \<open>The read \<open>p.ChatMessages\<close> and the assignment \<open>p.ChatMessages = s\<close>.\<close>

definition get_ChatMessages :: "'o heap \<Rightarrow> addr option \<Rightarrow> panic + slice" where
  "get_ChatMessages h p =
     (case deref h p of
        None \<Rightarrow> Inl NilPointerDereference
      | Some D \<Rightarrow> Inr (ChatMessages D))"

definition set_ChatMessages :: "'o heap \<Rightarrow> addr option \<Rightarrow> slice \<Rightarrow> panic + 'o heap" where
  "set_ChatMessages h p s =
     (case p of
        None \<Rightarrow> Inl NilPointerDereference
      | Some a \<Rightarrow>
          (case objects h a of
             None \<Rightarrow> Inl NilPointerDereference
           | Some D \<Rightarrow> Inr (h\<lparr>objects := (objects h)(a \<mapsto> D\<lparr>ChatMessages := s\<rparr>)\<rparr>)))"

subsection \<open>\<open>ChatChannelData.Merge\<close>\<close>

text \<open>
  The method, line by line: the type assertion (lines 12 to 15), the replacement or the
  append (lines 17 to 22), whose result is the heap after the assignment to
  \<open>dst.ChatMessages\<close>, and the truncation (lines 24 to 34). \<open>int\<close> is 64 bits wide, so
  \<open>int(options.ListSizeLimit)\<close> is the unsigned value of the limit and the subtraction
  from \<open>len(dst.ChatMessages)\<close> cannot overflow. The third parameter of the source,
  \<open>spatialNotifier\<close>, is not used by the body.
\<close>

definition Merge ::
  "(nat \<Rightarrow> nat \<Rightarrow> nat) \<Rightarrow> 'o heap \<Rightarrow> addr option \<Rightarrow> 'x Message \<Rightarrow>
   ChannelDataMergeOptions option \<Rightarrow> 'o heap outcome" where
  "Merge spare h dst src options =
     (case src of
        OtherMessage x \<Rightarrow> Returned (Some SrcIsNotAChatChannelData) h
      | ChatChannelDataPtr srcMsg \<Rightarrow>
     (case options of
        None \<Rightarrow> Panicked NilPointerDereference h
      | Some opts \<Rightarrow>
     (case (if ShouldReplaceList opts then
              (case get_ChatMessages h srcMsg of
                 Inl p \<Rightarrow> Inl (p, h)
               | Inr q \<Rightarrow>
                   (let (s, h1) = go_append spare h empty_slice (elems h q)
                    in case set_ChatMessages h1 dst s of
                         Inl p \<Rightarrow> Inl (p, h1)
                       | Inr h2 \<Rightarrow> Inr h2))
            else
              (case get_ChatMessages h dst of
                 Inl p \<Rightarrow> Inl (p, h)
               | Inr d \<Rightarrow>
                   (case get_ChatMessages h srcMsg of
                      Inl p \<Rightarrow> Inl (p, h)
                    | Inr q \<Rightarrow>
                        (let (s, h1) = go_append spare h d (elems h q)
                         in case set_ChatMessages h1 dst s of
                              Inl p \<Rightarrow> Inl (p, h1)
                            | Inr h2 \<Rightarrow> Inr h2)))) of
        Inl (p, h') \<Rightarrow> Panicked p h'
      | Inr h2 \<Rightarrow>
          if 0 < ListSizeLimit opts then
            (case get_ChatMessages h2 dst of
               Inl p \<Rightarrow> Panicked p h2
             | Inr d \<Rightarrow>
                 (case (if TruncateTop opts then
                          (let start = int (len d) - uint (ListSizeLimit opts);
                               start = (if start < 0 then 0 else start)
                           in slice_from d start)
                        else slice_to d (unat (ListSizeLimit opts))) of
                    Inl p \<Rightarrow> Panicked p h2
                  | Inr d' \<Rightarrow>
                      (case set_ChatMessages h2 dst d' of
                         Inl p \<Rightarrow> Panicked p h2
                       | Inr h3 \<Rightarrow> Returned None h3)))
          else Returned None h2)))"

subsection \<open>Well-formed slices and observations\<close>

text \<open>
  What every slice of a running Go program satisfies: its length is within its capacity,
  and its capacity within its backing array, which is allocated.
\<close>

definition valid_slice :: "'o heap \<Rightarrow> slice \<Rightarrow> bool" where
  "valid_slice h s =
     (len s \<le> cap s \<and>
      (case array s of
         None \<Rightarrow> cap s = 0
       | Some a \<Rightarrow>
           a < fresh h \<and>
           (case arrays h a of
              None \<Rightarrow> False
            | Some A \<Rightarrow> offset s + cap s \<le> length A)))"

text \<open>The list a message shows (\<open>None\<close> when the pointer is nil), and its validity.\<close>

definition list_of :: "'o heap \<Rightarrow> addr option \<Rightarrow> msgptr list option" where
  "list_of h p = map_option (\<lambda>D. elems h (ChatMessages D)) (deref h p)"

definition valid_list :: "'o heap \<Rightarrow> addr option \<Rightarrow> bool" where
  "valid_list h p =
     (case deref h p of None \<Rightarrow> False | Some D \<Rightarrow> valid_slice h (ChatMessages D))"

text \<open>
  The cells of an existing backing array that the append of line 21 writes: none in
  replace mode, where line 19 appends to a new empty slice; in append mode, when the
  elements of the source fit into the capacity of the receiver's list, the cells right
  after that list, given as the array, the first cell and the cell after the last one.
\<close>

definition appended_cells ::
  "'o heap \<Rightarrow> addr option \<Rightarrow> 'x Message \<Rightarrow> ChannelDataMergeOptions option \<Rightarrow>
   (addr \<times> nat \<times> nat) option" where
  "appended_cells h dst src options =
     (case options of
        None \<Rightarrow> None
      | Some opts \<Rightarrow>
          if ShouldReplaceList opts then None
          else
            (case src of
               OtherMessage x \<Rightarrow> None
             | ChatChannelDataPtr sp \<Rightarrow>
                 (case deref h dst of
                    None \<Rightarrow> None
                  | Some D \<Rightarrow>
                      (case deref h sp of
                         None \<Rightarrow> None
                       | Some S \<Rightarrow>
                           (let d = ChatMessages D; n = length (elems h (ChatMessages S))
                            in case array d of
                                 None \<Rightarrow> None
                               | Some a \<Rightarrow>
                                   if len d + n \<le> cap d
                                   then Some (a, offset d + len d, offset d + len d + n)
                                   else None)))))"

text \<open>Whether the list of \<open>q\<close> shows one of these cells.\<close>

definition shows_cells :: "'o heap \<Rightarrow> addr option \<Rightarrow> (addr \<times> nat \<times> nat) option \<Rightarrow> bool" where
  "shows_cells h q w =
     (case w of
        None \<Rightarrow> False
      | Some (a, lo, hi) \<Rightarrow>
          (case deref h q of
             None \<Rightarrow> False
           | Some S \<Rightarrow>
               array (ChatMessages S) = Some a \<and>
               max lo (offset (ChatMessages S))
                 < min hi (offset (ChatMessages S) + len (ChatMessages S))))"

text \<open>The parts of an outcome.\<close>

definition heap_of :: "'h outcome \<Rightarrow> 'h" where
  "heap_of r = (case r of Returned e h \<Rightarrow> h | Panicked p h \<Rightarrow> h)"

definition returned :: "'h outcome \<Rightarrow> error option option" where
  "returned r = (case r of Returned e h \<Rightarrow> Some e | Panicked p h \<Rightarrow> None)"

definition panicked :: "'h outcome \<Rightarrow> panic option" where
  "panicked r = (case r of Returned e h \<Rightarrow> None | Panicked p h \<Rightarrow> Some p)"

text \<open>
  The slice expression of lines 25 to 33 on its own: \<open>s[start:]\<close> with the clamped
  \<open>start\<close> when \<open>TruncateTop\<close> is set, \<open>s[:ListSizeLimit]\<close> otherwise.
\<close>

definition truncation :: "ChannelDataMergeOptions \<Rightarrow> slice \<Rightarrow> panic + slice" where
  "truncation opts d =
     (if TruncateTop opts then
        (let start = int (len d) - uint (ListSizeLimit opts);
             start = (if start < 0 then 0 else start)
         in slice_from d start)
      else slice_to d (unat (ListSizeLimit opts)))"

section \<open>The engine around the merge: payloads, update log, fan-out\<close>

text \<open>
  The generic merger (\<open>mergeWithOptions\<close>), the channel data with its update log and the
  fan-out of a channel tick belong to package \<open>channeld\<close>; the files at hand hold their
  tests only. This section models them from the specification (sections 3 and 4).
\<close>

subsection \<open>Payloads and the merger\<close>

text \<open>
  Modelled from the spec: the value type of the removable map of the test message
  \<open>TestMergeMessage\<close>, a message with a \<open>removed\<close> marker and a content.
\<close>

record StringWrapper =
  Removed :: bool
  Content :: string

text \<open>
  Modelled from the spec: a payload with the field categories of section 4.1, named after
  the test messages: two scalar fields (\<open>text\<close>, \<open>num\<close>), where \<open>None\<close> is a field
  that is not set, a repeated field (\<open>list\<close>) and a map field whose values carry the
  \<open>removed\<close> marker (\<open>kv\<close>, with \<open>int64\<close> keys).
\<close>

record payload =
  ptext :: "string option"
  pnum :: "32 word option"
  plist :: "string list"
  pkv :: "64 word \<rightharpoonup> StringWrapper"

text \<open>Modelled from the spec: the empty payload that coalescing starts from.\<close>

definition empty_payload :: payload where
  "empty_payload = \<lparr>ptext = None, pnum = None, plist = [], pkv = Map.empty\<rparr>"

text \<open>Modelled from the spec: \<open>Clone\<close>, the deep copy of a payload value.\<close>

definition Clone :: "payload \<Rightarrow> payload" where
  "Clone p = p"

text \<open>
  Modelled from the spec: scalar fields (section 4.1), "if src has the field set,
  overwrite dst".
\<close>

definition merge_scalar :: "'a option \<Rightarrow> 'a option \<Rightarrow> 'a option" where
  "merge_scalar dst src = (case src of None \<Rightarrow> dst | Some v \<Rightarrow> Some v)"

text \<open>
  Modelled from the spec: step 3 for repeated fields, "if listSizeLimit > 0 and post-step
  length exceeds the limit: if truncateTop, keep the last limit elements, else keep the
  first limit elements".
\<close>

definition limit_list :: "ChannelDataMergeOptions \<Rightarrow> 'a list \<Rightarrow> 'a list" where
  "limit_list opts xs =
     (let limit = unat (ListSizeLimit opts)
      in if 0 < limit \<and> limit < length xs
         then (if TruncateTop opts then drop (length xs - limit) xs else take limit xs)
         else xs)"

text \<open>
  Modelled from the spec: repeated fields, steps 1 to 3: replace by a copy of the source
  list or append it, then apply the limit.
\<close>

definition merge_list :: "ChannelDataMergeOptions \<Rightarrow> 'a list \<Rightarrow> 'a list \<Rightarrow> 'a list" where
  "merge_list opts dst src =
     limit_list opts (if ShouldReplaceList opts then src else dst @ src)"

text \<open>
  Modelled from the spec: map fields, "default behavior replaces by key"; with
  \<open>shouldCheckRemovableMapField\<close>, "for every src entry with removed=true, delete the
  key from dst; entries with removed=false write-through as usual". The values of the map
  are the wrapper messages themselves: an entry whose Go value is a nil pointer is not a
  payload value here.
\<close>

definition merge_map ::
  "ChannelDataMergeOptions \<Rightarrow> ('k \<rightharpoonup> StringWrapper) \<Rightarrow> ('k \<rightharpoonup> StringWrapper) \<Rightarrow>
   ('k \<rightharpoonup> StringWrapper)" where
  "merge_map opts dst src =
     (\<lambda>k. case src k of
            None \<Rightarrow> dst k
          | Some v \<Rightarrow>
              if ShouldCheckRemovableMapField opts \<and> Removed v then None else Some v)"

text \<open>
  Modelled from the spec: \<open>Merge(dst, src, options)\<close> of the Merger on two payloads of
  the channel's payload type, field by field.
\<close>

definition merge_payload :: "ChannelDataMergeOptions \<Rightarrow> payload \<Rightarrow> payload \<Rightarrow> payload" where
  "merge_payload opts dst src =
     \<lparr>ptext = merge_scalar (ptext dst) (ptext src),
      pnum = merge_scalar (pnum dst) (pnum src),
      plist = merge_list opts (plist dst) (plist src),
      pkv = merge_map opts (pkv dst) (pkv src)\<rparr>"

subsection \<open>Channel data\<close>

text \<open>
  Modelled from the spec: an update (section 3), a timestamp in channel time, a delta and
  the originating connection, if any.
\<close>

record update =
  timestamp :: int
  delta :: payload
  originator :: "nat option"

text \<open>Modelled from the spec: \<open>ChannelData\<close> (section 3).\<close>

record ChannelData =
  current :: payload
  updateLog :: "update list"
  lastUpdateTime :: int

datatype data_error = OutOfOrder

text \<open>Modelled from the spec: \<open>Init\<close> (section 4.2).\<close>

definition Init :: "payload \<Rightarrow> ChannelData" where
  "Init initial = \<lparr>current = initial, updateLog = [], lastUpdateTime = 0\<rparr>"

text \<open>
  Modelled from the spec: \<open>OnUpdate\<close> (section 4.2) under the channel's merge options;
  an update older than \<open>lastUpdateTime\<close> is reported and dropped.
\<close>

definition OnUpdate ::
  "ChannelDataMergeOptions \<Rightarrow> ChannelData \<Rightarrow> payload \<Rightarrow> int \<Rightarrow> nat option \<Rightarrow>
   data_error + ChannelData" where
  "OnUpdate opts d u t origin =
     (if t < lastUpdateTime d then Inl OutOfOrder
      else Inr \<lparr>current = merge_payload opts (current d) u,
               updateLog = updateLog d @ [\<lparr>timestamp = t, delta = u, originator = origin\<rparr>],
               lastUpdateTime = max (lastUpdateTime d) t\<rparr>)"

text \<open>
  Modelled from the spec: \<open>SliceSince\<close> (section 4.2): nothing when the cursor is at the
  end of the log; otherwise the updates from the cursor on, folded into a single empty
  payload with the channel's merge options, and the length of the log as the new cursor.
\<close>

definition SliceSince ::
  "ChannelDataMergeOptions \<Rightarrow> ChannelData \<Rightarrow> nat \<Rightarrow> payload option \<times> nat" where
  "SliceSince opts d cursor =
     (if cursor = length (updateLog d) then (None, cursor)
      else (Some (foldl (merge_payload opts) empty_payload
                    (map delta (drop cursor (updateLog d)))),
            length (updateLog d)))"

text \<open>Modelled from the spec: \<open>PruneBefore\<close> (section 4.2).\<close>

definition PruneBefore :: "ChannelData \<Rightarrow> nat \<Rightarrow> ChannelData" where
  "PruneBefore d minIndex = d\<lparr>updateLog := drop minIndex (updateLog d)\<rparr>"

text \<open>
  The two sides of the coalescing invariant: merging what \<open>SliceSince\<close> returned into a
  destination (nothing to merge when it returned none), and merging updates one by one,
  in order.
\<close>

definition merge_coalesced ::
  "ChannelDataMergeOptions \<Rightarrow> payload \<Rightarrow> payload option \<Rightarrow> payload" where
  "merge_coalesced opts dst c = (case c of None \<Rightarrow> dst | Some p \<Rightarrow> merge_payload opts dst p)"

definition merge_each :: "ChannelDataMergeOptions \<Rightarrow> payload \<Rightarrow> update list \<Rightarrow> payload" where
  "merge_each opts dst us = foldl (merge_payload opts) dst (map delta us)"

text \<open>A payload that carries a map entry marked as removed.\<close>

definition removes :: "payload \<Rightarrow> bool" where
  "removes p = (\<exists>v \<in> ran (pkv p). Removed v)"

subsection \<open>Subscriptions and the fan-out of a tick\<close>

text \<open>Modelled from the spec: \<open>Subscription\<close> (section 3), per connection and channel.\<close>

record Subscription =
  connection :: nat
  fanOutIntervalMs :: "32 word"
  nextFanOutAt :: int
  hasReceivedInitial :: bool
  cursorIndex :: nat

text \<open>
  Modelled from the spec: \<open>Channel\<close> (section 3): its data, its subscriptions in
  insertion order, its merge options and its logical clock.
\<close>

record Channel =
  data :: ChannelData
  subscriptions :: "Subscription list"
  mergeOptions :: ChannelDataMergeOptions
  clock :: int

text \<open>Modelled from the spec: the interval of a subscription in channel time (nanoseconds).\<close>

definition fanOutInterval :: "Subscription \<Rightarrow> int" where
  "fanOutInterval s = uint (fanOutIntervalMs s) * 1000000"

text \<open>Modelled from the spec: \<open>New\<close> of a subscription (section 4.3).\<close>

definition Subscription_New :: "Channel \<Rightarrow> nat \<Rightarrow> 32 word \<Rightarrow> Subscription" where
  "Subscription_New ch conn ms =
     \<lparr>connection = conn, fanOutIntervalMs = ms, nextFanOutAt = clock ch,
      hasReceivedInitial = False, cursorIndex = length (updateLog (data ch))\<rparr>"

text \<open>
  Modelled from the spec: the body of the scheduler's loop (section 4.4) for one
  subscription: the subscription afterwards and the payload handed to its sender, if any.
  The next fan-out time of a subscription that was due is counted from the tick that
  served it: the fan-out test of the sources serves the subscriber with an interval of
  100 ms first at 150 ms, not at 200 ms, and again at 250 ms, where adding the interval
  to the creation time, as the pseudo-code of section 4.4 does, would serve it at
  200 ms.
\<close>

definition fan_out ::
  "ChannelDataMergeOptions \<Rightarrow> ChannelData \<Rightarrow> int \<Rightarrow> Subscription \<Rightarrow>
   Subscription \<times> payload option" where
  "fan_out opts d now s =
     (if now < nextFanOutAt s then (s, None)
      else if \<not> hasReceivedInitial s then
        (s\<lparr>hasReceivedInitial := True, cursorIndex := length (updateLog d),
           nextFanOutAt := now + fanOutInterval s\<rparr>,
         Some (Clone (current d)))
      else
        (case SliceSince opts d (cursorIndex s) of
           (None, i) \<Rightarrow>
             (s\<lparr>cursorIndex := i, nextFanOutAt := now + fanOutInterval s\<rparr>, None)
         | (Some p, i) \<Rightarrow>
             (s\<lparr>cursorIndex := i, nextFanOutAt := now + fanOutInterval s\<rparr>, Some p)))"

text \<open>
  Modelled from the spec: the loop over the subscriptions in insertion order; the
  messages sent are pairs of a connection and a payload, in sending order.
\<close>

fun fan_out_all ::
  "ChannelDataMergeOptions \<Rightarrow> ChannelData \<Rightarrow> int \<Rightarrow> Subscription list \<Rightarrow>
   Subscription list \<times> (nat \<times> payload) list" where
  "fan_out_all opts d now [] = ([], [])"
| "fan_out_all opts d now (s # ss) =
     (let (s', m) = fan_out opts d now s;
          (ss', sent) = fan_out_all opts d now ss
      in (s' # ss', (case m of None \<Rightarrow> sent | Some p \<Rightarrow> (connection s, p) # sent)))"

text \<open>
  Modelled from the spec: the minimum of the cursors. The specification says nothing for
  a channel without subscriptions; nothing is pruned then.
\<close>

fun min_cursor :: "Subscription list \<Rightarrow> nat" where
  "min_cursor [] = 0"
| "min_cursor [s] = cursorIndex s"
| "min_cursor (s # ss) = min (cursorIndex s) (min_cursor ss)"

text \<open>
  Modelled from the spec: \<open>Channel.Tick(now)\<close> (section 4.4): the loop, then the pruning
  of the log before the minimum cursor and the shift of all cursors.
\<close>

definition Tick :: "int \<Rightarrow> Channel \<Rightarrow> Channel \<times> (nat \<times> payload) list" where
  "Tick now ch =
     (let (subs, sent) = fan_out_all (mergeOptions ch) (data ch) now (subscriptions ch);
          minCursor = min_cursor subs
      in (ch\<lparr>data := PruneBefore (data ch) minCursor,
             subscriptions := map (\<lambda>s. s\<lparr>cursorIndex := cursorIndex s - minCursor\<rparr>) subs,
             clock := now\<rparr>,
          sent))"

text \<open>What a connection received among the messages sent, and its subscription.\<close>

definition received :: "nat \<Rightarrow> (nat \<times> payload) list \<Rightarrow> payload list" where
  "received c sent = map snd (filter (\<lambda>m. fst m = c) sent)"

definition subscription_of :: "Channel \<Rightarrow> nat \<Rightarrow> Subscription option" where
  "subscription_of ch c = find (\<lambda>s. connection s = c) (subscriptions ch)"

subsection \<open>Channel operations and traces\<close>

text \<open>Modelled from the spec: a channel after \<open>InitData(initial, options)\<close> (section 4.5).\<close>

definition Channel_New :: "payload \<Rightarrow> ChannelDataMergeOptions \<Rightarrow> Channel" where
  "Channel_New initial options =
     \<lparr>data = Init initial, subscriptions = [], mergeOptions = options, clock = 0\<rparr>"

text \<open>
  Modelled from the spec: \<open>Subscribe\<close> (section 4.5), idempotent on the connection: a
  repeated call updates the interval and resets the next fan-out time, a first call adds
  a new subscription at the end.
\<close>

definition Subscribe :: "Channel \<Rightarrow> nat \<Rightarrow> 32 word \<Rightarrow> Channel" where
  "Subscribe ch conn ms =
     (if conn \<in> set (map connection (subscriptions ch))
      then ch\<lparr>subscriptions :=
                map (\<lambda>s. if connection s = conn
                         then s\<lparr>fanOutIntervalMs := ms, nextFanOutAt := clock ch\<rparr> else s)
                  (subscriptions ch)\<rparr>
      else ch\<lparr>subscriptions := subscriptions ch @ [Subscription_New ch conn ms]\<rparr>)"

text \<open>Modelled from the spec: \<open>Unsubscribe\<close> (section 4.5).\<close>

definition Unsubscribe :: "Channel \<Rightarrow> nat \<Rightarrow> Channel" where
  "Unsubscribe ch conn =
     ch\<lparr>subscriptions := filter (\<lambda>s. connection s \<noteq> conn) (subscriptions ch)\<rparr>"

text \<open>
  Modelled from the spec: an update routed to the channel (sections 2 and 7): it is
  applied by \<open>OnUpdate\<close>, and dropped when that reports it out of order.
\<close>

definition Publish :: "Channel \<Rightarrow> payload \<Rightarrow> int \<Rightarrow> nat option \<Rightarrow> Channel" where
  "Publish ch u t origin =
     (case OnUpdate (mergeOptions ch) (data ch) u t origin of
        Inl e \<Rightarrow> ch
      | Inr d \<Rightarrow> ch\<lparr>data := d\<rparr>)"

text \<open>
  The requests a channel processes one after the other, the channel after a request and
  the messages it sends.
\<close>

datatype event =
  Subscribed nat "32 word" | Unsubscribed nat | Published payload int "nat option" | Ticked int

fun apply_event :: "Channel \<Rightarrow> event \<Rightarrow> Channel \<times> (nat \<times> payload) list" where
  "apply_event ch (Subscribed c ms) = (Subscribe ch c ms, [])"
| "apply_event ch (Unsubscribed c) = (Unsubscribe ch c, [])"
| "apply_event ch (Published u t origin) = (Publish ch u t origin, [])"
| "apply_event ch (Ticked now) = Tick now ch"

text \<open>
  What has happened to each connection, read off the requests and the messages sent, not
  off the cursors: \<open>None\<close> when the connection has been sent nothing since its
  subscription was created (a repeated \<open>Subscribe\<close> creates none),
  otherwise the deltas of the updates applied since the last message sent to it, in
  order.
\<close>

type_synonym history = "nat \<Rightarrow> payload list option"

fun observe :: "history \<Rightarrow> Channel \<Rightarrow> event \<Rightarrow> history" where
  "observe g ch (Subscribed c ms) =
     (if c \<in> set (map connection (subscriptions ch)) then g else g(c := None))"
| "observe g ch (Unsubscribed c) = g(c := None)"
| "observe g ch (Published u t origin) =
     (case OnUpdate (mergeOptions ch) (data ch) u t origin of
        Inl e \<Rightarrow> g
      | Inr d \<Rightarrow> (\<lambda>c. map_option (\<lambda>us. us @ [u]) (g c)))"
| "observe g ch (Ticked now) =
     (\<lambda>c. if received c (snd (Tick now ch)) = [] then g c else Some [])"

text \<open>A run of requests from a channel and a history, and a run from a new channel.\<close>

fun run :: "Channel \<Rightarrow> history \<Rightarrow> event list \<Rightarrow> Channel \<times> history" where
  "run ch g [] = (ch, g)"
| "run ch g (e # es) = run (fst (apply_event ch e)) (observe g ch e) es"

definition channel_after :: "payload \<Rightarrow> ChannelDataMergeOptions \<Rightarrow> event list \<Rightarrow> Channel" where
  "channel_after initial options es = fst (run (Channel_New initial options) (\<lambda>c. None) es)"

definition history_after :: "payload \<Rightarrow> ChannelDataMergeOptions \<Rightarrow> event list \<Rightarrow> history" where
  "history_after initial options es = snd (run (Channel_New initial options) (\<lambda>c. None) es)"

text \<open>
  The invariant that ties the state of a subscription to the history of its connection:
  the flag is set exactly when something has been sent, and the log from the cursor on
  holds exactly the updates since the last message.
\<close>

definition in_step :: "Subscription \<Rightarrow> payload list option \<Rightarrow> update list \<Rightarrow> bool" where
  "in_step s pending log =
     (cursorIndex s \<le> length log \<and>
      (case pending of
         None \<Rightarrow> \<not> hasReceivedInitial s
       | Some us \<Rightarrow> hasReceivedInitial s \<and> map delta (drop (cursorIndex s) log) = us))"

definition consistent :: "Channel \<Rightarrow> history \<Rightarrow> bool" where
  "consistent ch g =
     (distinct (map connection (subscriptions ch)) \<and>
      (\<forall>s \<in> set (subscriptions ch). in_step s (g (connection s)) (updateLog (data ch))))"

section \<open>Sample data\<close>

text \<open>
  A heap with five messages: message 0 shows three elements and message 1 two (the lists
  of the merge-options test), messages 2 and 4 have empty lists, and message 3 shows one
  element of a backing array of two, whose second cell is the zero value left by an
  earlier growth.
\<close>

definition chat_heap :: "unit heap" where
  "chat_heap =
     \<lparr>objects =
        [0 \<mapsto> \<lparr>ChatMessages = \<lparr>array = Some 0, offset = 0, len = 3, cap = 3\<rparr>, internal = ()\<rparr>,
         1 \<mapsto> \<lparr>ChatMessages = \<lparr>array = Some 1, offset = 0, len = 2, cap = 2\<rparr>, internal = ()\<rparr>,
         2 \<mapsto> \<lparr>ChatMessages = \<lparr>array = None, offset = 0, len = 0, cap = 0\<rparr>, internal = ()\<rparr>,
         3 \<mapsto> \<lparr>ChatMessages = \<lparr>array = Some 2, offset = 0, len = 1, cap = 2\<rparr>, internal = ()\<rparr>,
         4 \<mapsto> \<lparr>ChatMessages = \<lparr>array = None, offset = 0, len = 0, cap = 0\<rparr>, internal = ()\<rparr>],
      arrays =
        [0 \<mapsto> [Some 10, Some 11, Some 12],
         1 \<mapsto> [Some 13, Some 14],
         2 \<mapsto> [Some 20, None]],
      fresh = 3\<rparr>"

text \<open>A runtime that allocates exactly the needed length.\<close>

definition no_spare :: "nat \<Rightarrow> nat \<Rightarrow> nat" where
  "no_spare c n = 0"

definition opts_of :: "bool \<Rightarrow> 32 word \<Rightarrow> bool \<Rightarrow> bool \<Rightarrow> ChannelDataMergeOptions" where
  "opts_of r l t c =
     \<lparr>ShouldReplaceList = r, ListSizeLimit = l, TruncateTop = t,
      ShouldCheckRemovableMapField = c\<rparr>"

text \<open>The two messages of the merge-options test, and an update that removes key 1.\<close>

definition wrapper :: "string \<Rightarrow> StringWrapper" where
  "wrapper c = \<lparr>Removed = False, Content = c\<rparr>"

definition removed_entry :: StringWrapper where
  "removed_entry = \<lparr>Removed = True, Content = []\<rparr>"

definition scenario_dst :: payload where
  "scenario_dst =
     \<lparr>ptext = None, pnum = None, plist = [''a'', ''b'', ''c''],
      pkv = [1 \<mapsto> wrapper ''aa'', 2 \<mapsto> wrapper ''bb'']\<rparr>"

definition scenario_src :: payload where
  "scenario_src =
     \<lparr>ptext = None, pnum = None, plist = [''d'', ''e''],
      pkv = [1 \<mapsto> removed_entry, 2 \<mapsto> wrapper ''bbb'']\<rparr>"



text \<open>
  The fan-out test of the sources: the initial data, the requests up to the last update,
  and the subscription of connection 2 right after it subscribed and at the end.
\<close>

definition text_update :: "string \<Rightarrow> payload" where
  "text_update t = \<lparr>ptext = Some t, pnum = None, plist = [], pkv = Map.empty\<rparr>"

definition test_initial :: payload where
  "test_initial = \<lparr>ptext = Some ''a'', pnum = Some 1, plist = [], pkv = Map.empty\<rparr>"

definition test_events :: "event list" where
  "test_events =
     [Subscribed 0 3600000, Subscribed 1 50, Ticked 100000000,
      Subscribed 2 100, Ticked 150000000,
      Published (text_update ''b'') 160000000 None, Ticked 200000000,
      Published (text_update ''c'') 220000000 None]"

definition test_options :: ChannelDataMergeOptions where
  "test_options = opts_of False 0 False False"

definition late_subscriber :: Subscription where
  "late_subscriber =
     \<lparr>connection = 2, fanOutIntervalMs = 100, nextFanOutAt = 250000000,
      hasReceivedInitial = True, cursorIndex = 0\<rparr>"

definition new_subscriber :: Subscription where
  "new_subscriber =
     \<lparr>connection = 2, fanOutIntervalMs = 100, nextFanOutAt = 100000000,
      hasReceivedInitial = False, cursorIndex = 0\<rparr>"

text \<open>
  A heap in which messages 0, 2 and 3 share one backing array: message 0 shows its first
  cell and has room for two more, message 2 shows the first cell only, message 3 all
  three cells.
\<close>

definition shared_heap :: "unit heap" where
  "shared_heap =
     \<lparr>objects =
        [0 \<mapsto> \<lparr>ChatMessages = \<lparr>array = Some 0, offset = 0, len = 1, cap = 3\<rparr>, internal = ()\<rparr>,
         1 \<mapsto> \<lparr>ChatMessages = \<lparr>array = Some 1, offset = 0, len = 1, cap = 1\<rparr>, internal = ()\<rparr>,
         2 \<mapsto> \<lparr>ChatMessages = \<lparr>array = Some 0, offset = 0, len = 1, cap = 1\<rparr>, internal = ()\<rparr>,
         3 \<mapsto> \<lparr>ChatMessages = \<lparr>array = Some 0, offset = 0, len = 3, cap = 3\<rparr>, internal = ()\<rparr>],
      arrays =
        [0 \<mapsto> [Some 40, Some 41, Some 42],
         1 \<mapsto> [Some 50]],
      fresh = 2\<rparr>"

section \<open>Properties of \<open>ChatChannelData.Merge\<close>\<close>

subsection \<open>Slices\<close>

lemma elems_objects_upd [simp]: "elems (h\<lparr>objects := m\<rparr>) s = elems h s"
  by (simp add: elems_def cong: option.case_cong)

lemma length_elems: "valid_slice h s \<Longrightarrow> length (elems h s) = len s"
  by (auto simp: valid_slice_def elems_def split: option.splits)

lemma elems_len_upd: "k \<le> len s \<Longrightarrow> elems h (s\<lparr>len := k\<rparr>) = take k (elems h s)"
  by (auto simp: elems_def min_def split: option.splits)

lemma length_elems_extended:
  "valid_slice h s \<Longrightarrow> 0 < k \<Longrightarrow> k \<le> cap s \<Longrightarrow> length (elems h (s\<lparr>len := k\<rparr>)) = k"
  by (auto simp: valid_slice_def elems_def split: option.splits)

lemma elems_from:
  "elems h (s\<lparr>offset := offset s + k, len := len s - k, cap := c\<rparr>) = drop k (elems h s)"
  by (auto simp: elems_def drop_take add.commute split: option.splits)

lemma go_append_objects [simp]: "objects (snd (go_append spare h s xs)) = objects h"
  by (simp add: go_append_def Let_def split: option.splits)

lemma go_append_valid:
  assumes "valid_slice h s" "go_append spare h s xs = (s', h')"
  shows "elems h' s' = elems h s @ xs" "valid_slice h' s'" "len s' = len s + length xs"
  using assms
  by (auto simp: go_append_def Let_def valid_slice_def elems_def drop_take
      split: option.splits if_splits)

lemma go_append_empty:
  assumes "go_append spare h empty_slice xs = (s', h')"
  shows "elems h' s' = xs" "valid_slice h' s'" "len s' = length xs"
  using assms
  by (auto simp: go_append_def Let_def valid_slice_def elems_def empty_slice_def
      split: option.splits if_splits)

lemma go_append_arrays:
  assumes "go_append spare h s xs = (s', h')" "b < fresh h" "array s \<noteq> Some b"
  shows "arrays h' b = arrays h b"
  using assms
  by (auto simp: go_append_def Let_def split: option.splits if_splits)

lemma elems_arrays_eq:
  assumes "\<And>b. array t = Some b \<Longrightarrow> arrays h' b = arrays h b"
  shows "elems h' t = elems h t"
  using assms by (cases "array t") (simp_all add: elems_def)

lemma truncation_first:
  assumes "k \<le> cap s" "\<not> TruncateTop opts" "unat (ListSizeLimit opts) = k"
  shows "truncation opts s = Inr (s\<lparr>len := k\<rparr>)"
  using assms by (simp add: truncation_def slice_to_def)

lemma truncation_out_of_range:
  assumes "cap s < unat (ListSizeLimit opts)" "\<not> TruncateTop opts"
  shows "truncation opts s = Inl SliceBoundsOutOfRange"
  using assms by (simp add: truncation_def slice_to_def)

lemma truncation_last:
  assumes "TruncateTop opts"
  shows "truncation opts s =
    Inr (s\<lparr>offset := offset s + (len s - unat (ListSizeLimit opts)),
           len := len s - (len s - unat (ListSizeLimit opts)),
           cap := cap s - (len s - unat (ListSizeLimit opts))\<rparr>)"
proof -
  have "uint (ListSizeLimit opts) = int (unat (ListSizeLimit opts))" by simp
  then show ?thesis
    using assms
    by (auto simp add: truncation_def slice_from_def Let_def nat_diff_distrib'
        simp del: of_nat_unat)
qed

subsection \<open>The method on non-nil arguments\<close>

lemma Merge_unfold:
  assumes d: "objects h a = Some D" and s: "deref h sp = Some S"
    and ap: "go_append spare h (if ShouldReplaceList opts then empty_slice else ChatMessages D)
               (elems h (ChatMessages S)) = (s1, h1)"
  shows "Merge spare h (Some a) (ChatChannelDataPtr sp) (Some opts) =
     (if 0 < ListSizeLimit opts then
        (case truncation opts s1 of
           Inl p \<Rightarrow> Panicked p (h1\<lparr>objects := (objects h)(a \<mapsto> D\<lparr>ChatMessages := s1\<rparr>)\<rparr>)
         | Inr s2 \<Rightarrow>
             Returned None (h1\<lparr>objects := (objects h)(a \<mapsto> D\<lparr>ChatMessages := s2\<rparr>)\<rparr>))
      else Returned None (h1\<lparr>objects := (objects h)(a \<mapsto> D\<lparr>ChatMessages := s1\<rparr>)\<rparr>))"
proof -
  have o1: "objects h1 = objects h"
    using go_append_objects [of spare h _ "elems h (ChatMessages S)"] ap
    by (metis snd_conv)
  have g: "get_ChatMessages h (Some a) = Inr (ChatMessages D)"
     "get_ChatMessages h sp = Inr (ChatMessages S)"
    using d s by (simp_all add: get_ChatMessages_def deref_def)
  have st: "\<And>x. set_ChatMessages h1 (Some a) x =
      Inr (h1\<lparr>objects := (objects h)(a \<mapsto> D\<lparr>ChatMessages := x\<rparr>)\<rparr>)"
    using d o1 by (simp add: set_ChatMessages_def)
  define h2 where "h2 = h1\<lparr>objects := (objects h)(a \<mapsto> D\<lparr>ChatMessages := s1\<rparr>)\<rparr>"
  have g2: "get_ChatMessages h2 (Some a) = Inr s1"
    by (simp add: h2_def get_ChatMessages_def deref_def)
  have st2: "\<And>x. set_ChatMessages h2 (Some a) x =
      Inr (h1\<lparr>objects := (objects h)(a \<mapsto> D\<lparr>ChatMessages := x\<rparr>)\<rparr>)"
    by (simp add: h2_def set_ChatMessages_def)
  have first: "(if ShouldReplaceList opts then
              (case get_ChatMessages h sp of
                 Inl p \<Rightarrow> Inl (p, h)
               | Inr q \<Rightarrow>
                   (let (s, h1) = go_append spare h empty_slice (elems h q)
                    in case set_ChatMessages h1 (Some a) s of
                         Inl p \<Rightarrow> Inl (p, h1)
                       | Inr h2 \<Rightarrow> Inr h2))
            else
              (case get_ChatMessages h (Some a) of
                 Inl p \<Rightarrow> Inl (p, h)
               | Inr d \<Rightarrow>
                   (case get_ChatMessages h sp of
                      Inl p \<Rightarrow> Inl (p, h)
                    | Inr q \<Rightarrow>
                        (let (s, h1) = go_append spare h d (elems h q)
                         in case set_ChatMessages h1 (Some a) s of
                              Inl p \<Rightarrow> Inl (p, h1)
                            | Inr h2 \<Rightarrow> Inr h2)))) = Inr h2"
    using ap by (cases "ShouldReplaceList opts") (simp_all add: g st h2_def)
  have "Merge spare h (Some a) (ChatChannelDataPtr sp) (Some opts) =
     (if 0 < ListSizeLimit opts then
        (case truncation opts s1 of
           Inl p \<Rightarrow> Panicked p h2
         | Inr s2 \<Rightarrow>
             Returned None (h1\<lparr>objects := (objects h)(a \<mapsto> D\<lparr>ChatMessages := s2\<rparr>)\<rparr>))
      else Returned None h2)"
    unfolding Merge_def
    by (simp only: Message.case option.case first sum.case g2 st2 truncation_def)
  then show ?thesis
    unfolding h2_def .
qed

lemma set_ChatMessages_None:
  "deref h p = None \<Longrightarrow> set_ChatMessages h p s = Inl NilPointerDereference"
  by (auto simp: set_ChatMessages_def deref_def split: option.splits)

lemma get_ChatMessages_None:
  "deref h p = None \<Longrightarrow> get_ChatMessages h p = Inl NilPointerDereference"
  by (simp add: get_ChatMessages_def)

lemma deref_go_append: "deref (snd (go_append spare h s xs)) p = deref h p"
  by (simp add: deref_def split: option.splits)

lemma Merge_nil_dst:
  assumes "deref h dst = None"
  shows "Merge spare h dst (ChatChannelDataPtr sp) (Some opts) \<noteq> Returned e h'"
proof -
  have "\<And>s xs. (let (s, h1) = go_append spare h s xs
                    in case set_ChatMessages h1 dst s of
                         Inl p \<Rightarrow> Inl (p, h1)
                       | Inr h2 \<Rightarrow> Inr h2) =
                 Inl (NilPointerDereference, snd (go_append spare h s xs))"
    using assms deref_go_append [of spare h _ _ dst]
    by (simp add: set_ChatMessages_None case_prod_unfold)
  then show ?thesis
    unfolding Merge_def
    by (simp add: get_ChatMessages_None assms split: sum.splits)
qed

lemma Merge_nil_src:
  assumes "deref h sp = None"
  shows "Merge spare h dst (ChatChannelDataPtr sp) (Some opts) \<noteq> Returned e h'"
  unfolding Merge_def
  by (simp add: get_ChatMessages_None assms split: sum.splits)

lemma Merge_Returned:
  assumes "Merge spare h dst (ChatChannelDataPtr sp) options = Returned e h'"
  obtains a D S opts where "dst = Some a" "objects h a = Some D"
    "deref h sp = Some S" "options = Some opts"
proof -
  obtain opts where opts: "options = Some opts"
    using assms by (cases options) (simp_all add: Merge_def)
  obtain S where S: "deref h sp = Some S"
    using assms Merge_nil_src [of h sp spare dst opts e h']
    by (cases "deref h sp") (auto simp: opts)
  obtain D where D: "deref h dst = Some D"
    using assms Merge_nil_dst [of h dst spare sp opts e h']
    by (cases "deref h dst") (auto simp: opts)
  then obtain a where "dst = Some a" "objects h a = Some D"
    by (cases dst) (simp_all add: deref_def)
  then show ?thesis using opts S that by blast
qed

text \<open>
  The part of the error contract that holds on every input: an error is returned exactly
  when the type assertion fails, and on a \<open>*ChatChannelData\<close> the method returns nil
  whenever it returns.
\<close>

lemma Merge_error_iff:
  "(\<exists>e h'. Merge spare h dst (src :: 'x Message) options = Returned (Some e) h') =
   (\<exists>x. src = OtherMessage x)"
proof (cases src)
  case (OtherMessage x)
  then show ?thesis by (simp add: Merge_def)
next
  case (ChatChannelDataPtr sp)
  have "Merge spare h dst src options \<noteq> Returned (Some e) h'" for e h'
  proof
    assume "Merge spare h dst src options = Returned (Some e) h'"
    then have r: "Merge spare h dst (ChatChannelDataPtr sp :: 'x Message) options =
        Returned (Some e) h'"
      by (simp add: ChatChannelDataPtr)
    then obtain a D S opts where a: "dst = Some a" "objects h a = Some D"
      and S: "deref h sp = Some S" and o: "options = Some opts"
      by (rule Merge_Returned)
    obtain s1 h1 where ap:
      "go_append spare h (if ShouldReplaceList opts then empty_slice else ChatMessages D)
         (elems h (ChatMessages S)) = (s1, h1)"
      by (cases "go_append spare h (if ShouldReplaceList opts then empty_slice else ChatMessages D)
         (elems h (ChatMessages S))") blast
    show False
      using r unfolding a(1) o Merge_unfold [OF a(2) S ap]
      by (auto split: if_splits sum.splits)
  qed
  then show ?thesis using ChatChannelDataPtr by simp
qed

text \<open>Without a size limit the merge returns nil with the replaced or appended list.\<close>

lemma Merge_unlimited:
  assumes P: "list_of h dst = Some P" and Q: "list_of h srcMsg = Some Q"
    and v: "valid_list h dst"
    and L: "ListSizeLimit opts = 0"
  shows "\<exists>h'. Merge spare h dst (ChatChannelDataPtr srcMsg) (Some opts) = Returned None h' \<and>
           list_of h' dst = Some (if ShouldReplaceList opts then Q else P @ Q)"
proof -
  obtain D where D: "deref h dst = Some D" "elems h (ChatMessages D) = P"
    using P by (auto simp: list_of_def)
  then obtain a where a: "dst = Some a" "objects h a = Some D"
    by (cases dst) (simp_all add: deref_def)
  obtain S where S: "deref h srcMsg = Some S" "elems h (ChatMessages S) = Q"
    using Q by (auto simp: list_of_def)
  have vD: "valid_slice h (ChatMessages D)"
    using v D by (simp add: valid_list_def)
  obtain s1 h1 where ap:
    "go_append spare h (if ShouldReplaceList opts then empty_slice else ChatMessages D)
       (elems h (ChatMessages S)) = (s1, h1)"
    by (cases "go_append spare h (if ShouldReplaceList opts then empty_slice else ChatMessages D)
               (elems h (ChatMessages S))") blast
  have s1: "elems h1 s1 = (if ShouldReplaceList opts then Q else P @ Q)"
  proof (cases "ShouldReplaceList opts")
    case True
    then show ?thesis
      using go_append_empty(1) [of spare h Q s1 h1] ap S by simp
  next
    case False
    then show ?thesis
      using go_append_valid(1) [OF vD, of spare Q s1 h1] ap S D by simp
  qed
  have M: "Merge spare h dst (ChatChannelDataPtr srcMsg) (Some opts) =
      Returned None (h1\<lparr>objects := (objects h)(a \<mapsto> D\<lparr>ChatMessages := s1\<rparr>)\<rparr>)"
    unfolding a(1) Merge_unfold [OF a(2) S(1) ap]
    using L by simp
  have "list_of (h1\<lparr>objects := (objects h)(a \<mapsto> D\<lparr>ChatMessages := s1\<rparr>)\<rparr>) dst =
     Some (if ShouldReplaceList opts then Q else P @ Q)"
    by (simp add: list_of_def deref_def a(1) s1)
  then show ?thesis
    unfolding M by blast
qed

text \<open>
  The result of a merge under a size limit, whenever the limit does not exceed the length
  of the list after the replacement or the append, or \<open>TruncateTop\<close> is set.
\<close>

lemma Merge_limit_result:
  assumes P: "list_of h dst = Some P" and Q: "list_of h srcMsg = Some Q"
    and v: "valid_list h dst"
    and cat: "cat = (if ShouldReplaceList opts then Q else P @ Q)"
    and L: "0 < ListSizeLimit opts"
    and g: "TruncateTop opts \<or> unat (ListSizeLimit opts) \<le> length cat"
  shows "\<exists>h'. Merge spare h dst (ChatChannelDataPtr srcMsg) (Some opts) = Returned None h' \<and>
           list_of h' dst =
             Some (if TruncateTop opts then drop (length cat - unat (ListSizeLimit opts)) cat
                   else take (unat (ListSizeLimit opts)) cat)"
proof -
  define k where "k = unat (ListSizeLimit opts)"
  obtain D where D: "deref h dst = Some D" "elems h (ChatMessages D) = P"
    using P by (auto simp: list_of_def)
  then obtain a where a: "dst = Some a" "objects h a = Some D"
    by (cases dst) (simp_all add: deref_def)
  obtain S where S: "deref h srcMsg = Some S" "elems h (ChatMessages S) = Q"
    using Q by (auto simp: list_of_def)
  have vD: "valid_slice h (ChatMessages D)"
    using v D by (simp add: valid_list_def)
  obtain s1 h1 where ap:
    "go_append spare h (if ShouldReplaceList opts then empty_slice else ChatMessages D)
       (elems h (ChatMessages S)) = (s1, h1)"
    by (cases "go_append spare h (if ShouldReplaceList opts then empty_slice else ChatMessages D)
               (elems h (ChatMessages S))") blast
  have s1: "elems h1 s1 = cat \<and> valid_slice h1 s1 \<and> len s1 = length cat"
  proof (cases "ShouldReplaceList opts")
    case True
    then show ?thesis
      using go_append_empty [of spare h Q s1 h1] ap S by (simp add: cat)
  next
    case False
    then show ?thesis
      using go_append_valid [OF vD, of spare Q s1 h1] ap S D length_elems [OF vD]
      by (simp add: cat)
  qed
  then have cap: "len s1 \<le> cap s1" by (simp add: valid_slice_def)
  define s2 where "s2 = (if TruncateTop opts
      then s1\<lparr>offset := offset s1 + (len s1 - k), len := len s1 - (len s1 - k),
                cap := cap s1 - (len s1 - k)\<rparr>
      else s1\<lparr>len := k\<rparr>)"
  have t: "truncation opts s1 = Inr s2"
  proof (cases "TruncateTop opts")
    case True
    then show ?thesis
      by (simp add: truncation_last [OF True] s2_def k_def)
  next
    case False
    then have "k \<le> cap s1" using g s1 cap by (simp add: k_def)
    from truncation_first [OF this False k_def [symmetric]] False
    show ?thesis by (simp add: s2_def)
  qed
  have e2: "elems h1 s2 = (if TruncateTop opts then drop (length cat - k) cat else take k cat)"
  proof (cases "TruncateTop opts")
    case True
    then show ?thesis
      using elems_from [where h = h1 and s = s1 and k = "len s1 - k"
          and c = "cap s1 - (len s1 - k)"] s1
      by (simp add: s2_def)
  next
    case False
    then have "k \<le> len s1" using g s1 by (simp add: k_def)
    then show ?thesis
      using elems_len_upd [of k s1 h1] False s1 by (simp add: s2_def)
  qed
  have M: "Merge spare h dst (ChatChannelDataPtr srcMsg) (Some opts) =
      Returned None (h1\<lparr>objects := (objects h)(a \<mapsto> D\<lparr>ChatMessages := s2\<rparr>)\<rparr>)"
    unfolding a(1) Merge_unfold [OF a(2) S(1) ap]
    using L by (simp add: t)
  have "list_of (h1\<lparr>objects := (objects h)(a \<mapsto> D\<lparr>ChatMessages := s2\<rparr>)\<rparr>) dst =
     Some (if TruncateTop opts then drop (length cat - k) cat else take k cat)"
    by (simp add: list_of_def deref_def a(1) e2)
  then show ?thesis
    unfolding M k_def by blast
qed

text \<open>
  Without \<open>TruncateTop\<close>, a list that stays below the limit never gets the length the
  size limit promises: the slice expression \<open>[:ListSizeLimit]\<close> either is out of range,
  or extends the list to the limit with cells of the backing array beyond its length.
\<close>

lemma Merge_short_list:
  assumes P: "list_of h dst = Some P" and Q: "list_of h srcMsg = Some Q"
    and v: "valid_list h dst"
    and cat: "cat = (if ShouldReplaceList opts then Q else P @ Q)"
    and L: "0 < ListSizeLimit opts"
    and nt: "\<not> TruncateTop opts"
    and short: "length cat < unat (ListSizeLimit opts)"
  shows "panicked (Merge spare h dst (ChatChannelDataPtr srcMsg) (Some opts))
           = Some SliceBoundsOutOfRange \<or>
         (\<exists>R. list_of (heap_of (Merge spare h dst (ChatChannelDataPtr srcMsg) (Some opts))) dst
                 = Some R \<and> length R = unat (ListSizeLimit opts))"
proof -
  define k where "k = unat (ListSizeLimit opts)"
  obtain D where D: "deref h dst = Some D" "elems h (ChatMessages D) = P"
    using P by (auto simp: list_of_def)
  then obtain a where a: "dst = Some a" "objects h a = Some D"
    by (cases dst) (simp_all add: deref_def)
  obtain S where S: "deref h srcMsg = Some S" "elems h (ChatMessages S) = Q"
    using Q by (auto simp: list_of_def)
  have vD: "valid_slice h (ChatMessages D)"
    using v D by (simp add: valid_list_def)
  obtain s1 h1 where ap:
    "go_append spare h (if ShouldReplaceList opts then empty_slice else ChatMessages D)
       (elems h (ChatMessages S)) = (s1, h1)"
    by (cases "go_append spare h (if ShouldReplaceList opts then empty_slice else ChatMessages D)
               (elems h (ChatMessages S))") blast
  have s1: "valid_slice h1 s1"
  proof (cases "ShouldReplaceList opts")
    case True
    then show ?thesis
      using go_append_empty(2) [of spare h Q s1 h1] ap S by simp
  next
    case False
    then show ?thesis
      using go_append_valid(2) [OF vD, of spare Q s1 h1] ap S by simp
  qed
  have kpos: "0 < k" using L by (simp add: k_def unat_gt_0)
  show ?thesis
  proof (cases "k \<le> cap s1")
    case True
    from truncation_first [OF True nt k_def [symmetric]]
    have M: "Merge spare h dst (ChatChannelDataPtr srcMsg) (Some opts) =
      Returned None (h1\<lparr>objects := (objects h)(a \<mapsto> D\<lparr>ChatMessages := s1\<lparr>len := k\<rparr>\<rparr>)\<rparr>)"
      unfolding a(1) Merge_unfold [OF a(2) S(1) ap]
      using L by simp
    have "length (elems h1 (s1\<lparr>len := k\<rparr>)) = k"
      using s1 kpos True by (rule length_elems_extended)
    then show ?thesis
      unfolding M by (simp add: heap_of_def list_of_def deref_def a(1) k_def)
  next
    case False
    then have "cap s1 < unat (ListSizeLimit opts)" by (simp add: k_def)
    from truncation_out_of_range [OF this nt]
    have M: "Merge spare h dst (ChatChannelDataPtr srcMsg) (Some opts) =
      Panicked SliceBoundsOutOfRange (h1\<lparr>objects := (objects h)(a \<mapsto> D\<lparr>ChatMessages := s1\<rparr>)\<rparr>)"
      unfolding a(1) Merge_unfold [OF a(2) S(1) ap]
      using L by simp
    show ?thesis unfolding M by (simp add: panicked_def)
  qed
qed

subsection \<open>Evaluation on the sample heap\<close>

lemmas heap_eval = Merge_def get_ChatMessages_def set_ChatMessages_def deref_def chat_heap_def
  opts_of_def go_append_def elems_def slice_to_def slice_from_def empty_slice_def list_of_def

subsection \<open>Type mismatch\<close>

text \<open>
  Claim C4. For every receiver, every source whose dynamic type is not
  \<open>*ChatChannelData\<close> and all options (the nil pointer included), the method returns
  the error "src is not a ChatChannelData" and leaves the whole heap, hence the
  receiver, as it was.
\<close>

theorem Merge_type_mismatch:
  "Merge spare h dst (OtherMessage x) options = Returned (Some SrcIsNotAChatChannelData) h"
  by (simp add: Merge_def)

subsection \<open>Truncation direction\<close>

text \<open>
  Claim C3. When the list after the replacement (the source list) or after the append
  (the receiver's list followed by the source list) is longer than the limit \<open>L > 0\<close>,
  the method returns nil and leaves in the receiver exactly the last \<open>L\<close> elements of
  that list when \<open>TruncateTop\<close> is set, and exactly its first \<open>L\<close> elements otherwise.
  The source may be the receiver itself.
\<close>

theorem Merge_truncate_direction:
  assumes "list_of h dst = Some P" and "list_of h srcMsg = Some Q"
    and "valid_list h dst"
    and "cat = (if ShouldReplaceList opts then Q else P @ Q)"
    and "0 < ListSizeLimit opts"
    and "unat (ListSizeLimit opts) < length cat"
  shows "\<exists>h'. Merge spare h dst (ChatChannelDataPtr srcMsg) (Some opts) = Returned None h' \<and>
           list_of h' dst =
             Some (if TruncateTop opts then drop (length cat - unat (ListSizeLimit opts)) cat
                   else take (unat (ListSizeLimit opts)) cat)"
  using assms by (intro Merge_limit_result) simp_all

text \<open>
  The lists of the merge-options test, [10, 11, 12] and [13, 14] with limit 4: the first
  four elements remain, and with \<open>TruncateTop\<close> the last four.
\<close>

theorem Merge_truncate_direction_witness:
  "list_of chat_heap (Some 0) = Some [Some 10, Some 11, Some 12] \<and>
   list_of chat_heap (Some 1) = Some [Some 13, Some 14] \<and>
   valid_list chat_heap (Some 0) \<and>
   0 < ListSizeLimit (opts_of False 4 False False) \<and>
   unat (ListSizeLimit (opts_of False 4 False False))
     < length [Some 10, Some 11, Some 12, Some 13, Some (14::nat)] \<and>
   (\<exists>h'. Merge no_spare chat_heap (Some 0) (ChatChannelDataPtr (Some 1) :: unit Message)
            (Some (opts_of False 4 False False)) = Returned None h' \<and>
         list_of h' (Some 0) = Some [Some 10, Some 11, Some 12, Some 13]) \<and>
   (\<exists>h'. Merge no_spare chat_heap (Some 0) (ChatChannelDataPtr (Some 1) :: unit Message)
            (Some (opts_of False 4 True False)) = Returned None h' \<and>
         list_of h' (Some 0) = Some [Some 11, Some 12, Some 13, Some 14])"
proof -
  have 1: "list_of chat_heap (Some 0) = Some [Some 10, Some 11, Some 12]"
    and 2: "list_of chat_heap (Some 1) = Some [Some 13, Some 14]"
    and 3: "valid_list chat_heap (Some 0)"
    by (simp_all add: list_of_def deref_def chat_heap_def elems_def valid_list_def valid_slice_def)
  have 4: "0 < ListSizeLimit (opts_of False 4 t False)" for t
    by (simp add: opts_of_def)
  have 5: "unat (ListSizeLimit (opts_of False 4 t False))
     < length [Some 10, Some 11, Some 12, Some 13, Some (14::nat)]" for t
    by (simp add: opts_of_def)
  have c: "[Some 10, Some 11, Some 12, Some 13, Some (14::nat)] =
      (if ShouldReplaceList (opts_of False 4 t False) then [Some 13, Some 14]
       else [Some 10, Some 11, Some 12] @ [Some 13, Some 14])" for t
    by (simp add: opts_of_def)
  from Merge_truncate_direction [OF 1 2 3 c [of False] 4 [of False] 5 [of False],
        where spare = no_spare]
    Merge_truncate_direction [OF 1 2 3 c [of True] 4 [of True] 5 [of True],
        where spare = no_spare]
  show ?thesis
    using 1 2 3 4 [of False] 5 [of False] by (simp add: opts_of_def)
qed

subsection \<open>Replacing a list by itself\<close>

text \<open>
  Claim C8. Merging a message into itself with \<open>ShouldReplaceList\<close> and no size limit
  (\<open>ListSizeLimit = 0\<close>) returns nil and leaves the list of the message unchanged,
  element by element.
\<close>

theorem Merge_replace_self:
  assumes P: "list_of h p = Some P" and r: "ShouldReplaceList opts" and L: "ListSizeLimit opts = 0"
  shows "\<exists>h'. Merge spare h p (ChatChannelDataPtr p) (Some opts) = Returned None h' \<and>
           list_of h' p = Some P"
proof -
  obtain D where D: "deref h p = Some D" "elems h (ChatMessages D) = P"
    using P by (auto simp: list_of_def)
  then obtain a where a: "p = Some a" "objects h a = Some D"
    by (cases p) (simp_all add: deref_def)
  obtain s1 h1 where ap: "go_append spare h (if ShouldReplaceList opts then empty_slice else ChatMessages D)
               (elems h (ChatMessages D)) = (s1, h1)"
    by (cases "go_append spare h (if ShouldReplaceList opts then empty_slice else ChatMessages D)
               (elems h (ChatMessages D))") blast
  have "elems h1 s1 = P"
    using go_append_empty(1) [of spare h P s1 h1] ap r D by simp
  then show ?thesis
    using L a(2) unfolding a(1)
    by (simp add: Merge_unfold [OF a(2) D(1) ap, unfolded a(1)] list_of_def deref_def)
qed

theorem Merge_replace_self_witness:
  "list_of chat_heap (Some 0) = Some [Some 10, Some 11, Some 12] \<and>
   ShouldReplaceList (opts_of True 0 False False) \<and>
   ListSizeLimit (opts_of True 0 False False) = 0 \<and>
   (\<exists>h'. Merge no_spare chat_heap (Some 0) (ChatChannelDataPtr (Some 0) :: unit Message)
            (Some (opts_of True 0 False False)) = Returned None h' \<and>
         list_of h' (Some 0) = Some [Some 10, Some 11, Some 12])"
proof -
  have 1: "list_of chat_heap (Some 0) = Some [Some 10, Some 11, Some 12]"
    by (simp add: list_of_def deref_def chat_heap_def elems_def)
  have 2: "ShouldReplaceList (opts_of True 0 False False)"
    and 3: "ListSizeLimit (opts_of True 0 False False) = 0"
    by (simp_all add: opts_of_def)
  from Merge_replace_self [OF 1 2 3, where spare = no_spare] show ?thesis
    using 1 2 3 by simp
qed

subsection \<open>Frame\<close>

lemma go_append_cells:
  assumes ap: "go_append spare h s xs = (s', h')" and v: "valid_slice h s"
    and b: "b < fresh h" and A: "arrays h b = Some A"
  shows "\<exists>A'. arrays h' b = Some A' \<and> length A' = length A \<and>
           (\<forall>i<length A. A' ! i \<noteq> A ! i \<longrightarrow>
              array s = Some b \<and> len s + length xs \<le> cap s \<and>
              offset s + len s \<le> i \<and> i < offset s + len s + length xs)"
proof (cases "array s = Some b \<and> len s + length xs \<le> cap s")
  case False
  then have "arrays h' b = arrays h b"
    using ap b by (auto simp: go_append_def Let_def split: option.splits if_splits)
  then show ?thesis using A by simp
next
  case True
  define A' where "A' = take (offset s + len s) A @ xs @ drop (offset s + (len s + length xs)) A"
  have le: "offset s + (len s + length xs) \<le> length A"
    using v True A by (simp add: valid_slice_def)
  have 1: "arrays h' b = Some A'"
    using ap True A by (auto simp: go_append_def Let_def A'_def)
  have 2: "length A' = length A"
    using le by (simp add: A'_def)
  have 3: "A' ! i = A ! i" if "i < length A" "i < offset s + len s \<or> offset s + len s + length xs \<le> i" for i
  proof (cases "i < offset s + len s")
    case True
    then show ?thesis using le by (simp add: A'_def nth_append)
  next
    case False
    then have ge: "offset s + len s + length xs \<le> i" using that by simp
    then have "\<not> i - (offset s + len s) < length xs" by linarith
    moreover have "min (length A) (offset s + len s) = offset s + len s" using le by simp
    moreover have "offset s + (len s + length xs) + (i - (offset s + len s) - length xs) = i"
      using ge by linarith
    ultimately show ?thesis
      using le that(1) False by (simp add: A'_def nth_append)
  qed
  show ?thesis
    using 1 2 3 True by (metis not_le_imp_less)
qed

lemma window_eq:
  assumes "length A' = length A"
    and "\<And>i. i < length A \<Longrightarrow> o' \<le> i \<Longrightarrow> i < o' + l \<Longrightarrow> A' ! i = A ! i"
  shows "take l (drop o' A') = take l (drop o' A)"
proof (rule nth_equalityI)
  show "length (take l (drop o' A')) = length (take l (drop o' A))"
    using assms(1) by simp
next
  fix j assume "j < length (take l (drop o' A'))"
  then have j: "j < l" "o' + j < length A" using assms(1) by auto
  then show "take l (drop o' A') ! j = take l (drop o' A) ! j"
    using assms by simp
qed

text \<open>
  Claim C10, as amended. After a call that returned nil, every message object other
  than the receiver is unchanged, the fields of the receiver other than \<open>ChatMessages\<close>
  are unchanged, and every message other than the receiver, the source included, shows
  the same list as before, provided that its list and the receiver's list are
  well-formed and that it shows none of the cells that the append writes in the
  receiver's backing array.
\<close>

theorem Merge_frame:
  assumes ok: "Merge spare h dst src options = Returned None h'"
  shows "(\<forall>a. Some a \<noteq> dst \<longrightarrow> objects h' a = objects h a) \<and>
         map_option internal (deref h' dst) = map_option internal (deref h dst) \<and>
         (\<forall>q. q \<noteq> dst \<and> valid_list h dst \<and> valid_list h q \<and>
              \<not> shows_cells h q (appended_cells h dst src options) \<longrightarrow>
              list_of h' q = list_of h q)"
proof -
  obtain sp where sp: "src = ChatChannelDataPtr sp"
    using ok by (cases src) (simp_all add: Merge_def)
  from ok [unfolded sp] obtain a D S opts where a: "dst = Some a" "objects h a = Some D"
    and S: "deref h sp = Some S" and o: "options = Some opts"
    by (rule Merge_Returned)
  define base where "base = (if ShouldReplaceList opts then empty_slice else ChatMessages D)"
  define xs where "xs = elems h (ChatMessages S)"
  obtain s1 h1 where ap: "go_append spare h base xs = (s1, h1)"
    by (cases "go_append spare h base xs") blast
  note M = Merge_unfold [OF a(2) S ap [unfolded base_def xs_def]]
  have "\<exists>s'. h' = h1\<lparr>objects := (objects h)(a \<mapsto> D\<lparr>ChatMessages := s'\<rparr>)\<rparr>"
    using ok unfolding a(1) sp o M
    by (auto split: if_splits sum.splits)
  then obtain s' where h': "h' = h1\<lparr>objects := (objects h)(a \<mapsto> D\<lparr>ChatMessages := s'\<rparr>)\<rparr>"
    by blast
  have others: "\<forall>b. Some b \<noteq> dst \<longrightarrow> objects h' b = objects h b"
    by (auto simp: h' a(1))
  have same: "map_option internal (deref h' dst) = map_option internal (deref h dst)"
    by (simp add: h' a deref_def)
  have w: "appended_cells h dst src options =
      (if ShouldReplaceList opts then None
       else case array (ChatMessages D) of
              None \<Rightarrow> None
            | Some b \<Rightarrow>
                if len (ChatMessages D) + length xs \<le> cap (ChatMessages D)
                then Some (b, offset (ChatMessages D) + len (ChatMessages D),
                           offset (ChatMessages D) + len (ChatMessages D) + length xs)
                else None)"
    using a S by (simp add: appended_cells_def sp o deref_def xs_def Let_def split: option.splits)
  have frame: "list_of h' q = list_of h q"
    if d: "q \<noteq> dst" and vd: "valid_list h dst" and v: "valid_list h q"
      and n: "\<not> shows_cells h q (appended_cells h dst src options)" for q
  proof -
    obtain T where T: "deref h q = Some T" and vT: "valid_slice h (ChatMessages T)"
      using v by (auto simp: valid_list_def split: option.splits)
    have 1: "deref h' q = Some T"
      using d T by (cases q) (auto simp: h' deref_def a(1))
    have vb: "valid_slice h base"
      using vd a by (simp add: base_def valid_list_def deref_def valid_slice_def empty_slice_def)
    have "elems h1 (ChatMessages T) = elems h (ChatMessages T)"
    proof (cases "array (ChatMessages T)")
      case None
      then show ?thesis by (simp add: elems_def)
    next
      case (Some b)
      then obtain A where A: "arrays h b = Some A" and b: "b < fresh h"
        using vT by (auto simp: valid_slice_def split: option.splits)
      from go_append_cells [OF ap vb b A] obtain A' where
        A': "arrays h1 b = Some A'" "length A' = length A"
        and ch: "\<And>i. i < length A \<Longrightarrow> A' ! i \<noteq> A ! i \<Longrightarrow>
              array base = Some b \<and> len base + length xs \<le> cap base \<and>
              offset base + len base \<le> i \<and> i < offset base + len base + length xs"
        by blast
      have "A' ! i = A ! i"
        if i: "i < length A" "offset (ChatMessages T) \<le> i"
          "i < offset (ChatMessages T) + len (ChatMessages T)" for i
      proof (rule ccontr)
        assume "A' ! i \<noteq> A ! i"
        from ch [OF i(1) this] have c: "array base = Some b" "len base + length xs \<le> cap base"
          "offset base + len base \<le> i" "i < offset base + len base + length xs"
          by simp_all
        then have r: "\<not> ShouldReplaceList opts" and bD: "base = ChatMessages D"
          by (auto simp: base_def empty_slice_def split: if_splits)
        have "shows_cells h q (appended_cells h dst src options)"
          using c i T Some r unfolding w bD
          by (auto simp: shows_cells_def)
        then show False using n by simp
      qed
      then have "take (len (ChatMessages T)) (drop (offset (ChatMessages T)) A') =
          take (len (ChatMessages T)) (drop (offset (ChatMessages T)) A)"
        using A'(2) by (intro window_eq) simp_all
      then show ?thesis
        by (simp add: elems_def Some A A')
    qed
    then show ?thesis
      using 1 T by (simp add: list_of_def h')
  qed
  show ?thesis
    using others same frame by blast
qed

text \<open>
  Appending the one element of message 1 to message 0 writes the second cell of the
  shared array: message 1 and message 2, which shows the first cell only, keep their
  lists.
\<close>

theorem Merge_frame_witness:
  "Merge no_spare shared_heap (Some 0) (ChatChannelDataPtr (Some 1) :: unit Message)
     (Some (opts_of False 0 False False)) =
   Returned None (heap_of (Merge no_spare shared_heap (Some 0)
     (ChatChannelDataPtr (Some 1) :: unit Message) (Some (opts_of False 0 False False)))) \<and>
   Some 1 \<noteq> Some (0::nat) \<and> Some 2 \<noteq> Some (0::nat) \<and>
   valid_list shared_heap (Some 0) \<and> valid_list shared_heap (Some 1) \<and>
   valid_list shared_heap (Some 2) \<and>
   appended_cells shared_heap (Some 0) (ChatChannelDataPtr (Some 1) :: unit Message)
     (Some (opts_of False 0 False False)) = Some (0, 1, 2) \<and>
   \<not> shows_cells shared_heap (Some 1) (Some (0, 1, 2)) \<and>
   \<not> shows_cells shared_heap (Some 2) (Some (0, 1, 2)) \<and>
   objects (heap_of (Merge no_spare shared_heap (Some 0)
     (ChatChannelDataPtr (Some 1) :: unit Message) (Some (opts_of False 0 False False)))) 1 =
     objects shared_heap 1 \<and>
   list_of (heap_of (Merge no_spare shared_heap (Some 0)
     (ChatChannelDataPtr (Some 1) :: unit Message) (Some (opts_of False 0 False False))))
     (Some 1) = list_of shared_heap (Some 1) \<and>
   list_of (heap_of (Merge no_spare shared_heap (Some 0)
     (ChatChannelDataPtr (Some 1) :: unit Message) (Some (opts_of False 0 False False))))
     (Some 2) = list_of shared_heap (Some 2)"
proof -
  let ?src = "ChatChannelDataPtr (Some 1) :: unit Message"
  let ?o = "Some (opts_of False 0 False False)"
  let ?r = "Merge no_spare shared_heap (Some 0) ?src ?o"
  have ok: "?r = Returned None (heap_of ?r)"
    by (simp add: Merge_def get_ChatMessages_def set_ChatMessages_def deref_def shared_heap_def
        opts_of_def go_append_def elems_def empty_slice_def heap_of_def no_spare_def)
  have 1: "Some 1 \<noteq> Some (0::nat)" "Some 2 \<noteq> Some (0::nat)" by simp_all
  have 2: "valid_list shared_heap (Some 0)" "valid_list shared_heap (Some 1)"
    "valid_list shared_heap (Some 2)"
    by (simp_all add: valid_list_def valid_slice_def deref_def shared_heap_def)
  have 3: "appended_cells shared_heap (Some 0) ?src ?o = Some (0, 1, 2)"
    by (simp add: appended_cells_def deref_def shared_heap_def opts_of_def elems_def)
  have 4: "\<not> shows_cells shared_heap (Some 1) (Some (0, 1, 2))"
    "\<not> shows_cells shared_heap (Some 2) (Some (0, 1, 2))"
    by (simp_all add: shows_cells_def deref_def shared_heap_def)
  from Merge_frame [OF ok] have
    a: "\<forall>a. Some a \<noteq> Some (0::nat) \<longrightarrow> objects (heap_of ?r) a = objects shared_heap a"
    and b: "\<forall>q. q \<noteq> Some 0 \<and> valid_list shared_heap (Some 0) \<and> valid_list shared_heap q \<and>
           \<not> shows_cells shared_heap q (appended_cells shared_heap (Some 0) ?src ?o) \<longrightarrow>
           list_of (heap_of ?r) q = list_of shared_heap q"
    by blast+
  have "objects (heap_of ?r) 1 = objects shared_heap 1"
    using a 1 by blast
  moreover have "list_of (heap_of ?r) (Some 1) = list_of shared_heap (Some 1)"
    "list_of (heap_of ?r) (Some 2) = list_of shared_heap (Some 2)"
    using b 1 2 4 unfolding 3 by blast+
  ultimately show ?thesis using ok 1 2 3 4 by blast
qed

text \<open>Message 3 shows the cell that this append writes, and its list changes.\<close>

lemma shared_list_changes:
  "valid_list shared_heap (Some 3) \<and>
   list_of shared_heap (Some 3) = Some [Some 40, Some 41, Some 42] \<and>
   list_of (heap_of (Merge no_spare shared_heap (Some 0)
     (ChatChannelDataPtr (Some 1) :: unit Message) (Some (opts_of False 0 False False))))
     (Some 3) = Some [Some 40, Some 50, Some 42]"
  by (simp add: Merge_def get_ChatMessages_def set_ChatMessages_def deref_def shared_heap_def
        opts_of_def go_append_def elems_def empty_slice_def heap_of_def no_spare_def
        valid_list_def valid_slice_def list_of_def)

text \<open>
  As stated for every successful call, the claim fails when the source is the receiver:
  appending message 0 to itself returns nil and doubles its list, so the source is not
  left unchanged.
\<close>

theorem Merge_frame_counterexample:
  "returned (Merge no_spare chat_heap (Some 0) (ChatChannelDataPtr (Some 0) :: unit Message)
     (Some (opts_of False 0 False False))) = Some None \<and>
   list_of chat_heap (Some 0) = Some [Some 10, Some 11, Some 12] \<and>
   list_of (heap_of (Merge no_spare chat_heap (Some 0)
     (ChatChannelDataPtr (Some 0) :: unit Message) (Some (opts_of False 0 False False))))
     (Some 0) = Some [Some 10, Some 11, Some 12, Some 10, Some 11, Some 12]"
  by (simp add: heap_eval heap_of_def returned_def no_spare_def)

subsection \<open>The slice expression of line 32 below the limit\<close>

text \<open>
  Claim C1. After a merge with \<open>ListSizeLimit = L > 0\<close> the list has length
  \<open>min (len P + len Q) L\<close> in append mode. Message 3 shows one element in a backing
  array of two; appending the empty list of message 2 with limit 2 and without
  \<open>TruncateTop\<close> returns nil and leaves a list of length 2, not 1: line 32 extends the
  list over the spare cell of its backing array, here a nil pointer.
\<close>

theorem Merge_size_limit_short_list:
  "list_of chat_heap (Some 3) = Some [Some 20] \<and>
   list_of chat_heap (Some 2) = Some [] \<and>
   returned (Merge spare chat_heap (Some 3) (ChatChannelDataPtr (Some 2))
     (Some (opts_of False 2 False False))) = Some None \<and>
   list_of (heap_of (Merge spare chat_heap (Some 3) (ChatChannelDataPtr (Some 2))
     (Some (opts_of False 2 False False)))) (Some 3) = Some [Some 20, None]"
  by (simp add: heap_eval heap_of_def returned_def)

text \<open>
  Claim C2. The slice expression \<open>dst.ChatMessages[:options.ListSizeLimit]\<close> is within
  the bounds of the list after the append and the method never hits an out-of-range
  slice. Replacing the list of message 0 by the empty list of message 2 with limit 1 and
  without \<open>TruncateTop\<close> panics at line 32: the limit exceeds the capacity, which is 0.
\<close>

theorem Merge_truncation_out_of_bounds:
  "list_of chat_heap (Some 2) = Some [] \<and>
   panicked (Merge spare chat_heap (Some 0) (ChatChannelDataPtr (Some 2))
     (Some (opts_of True 1 False False))) = Some SliceBoundsOutOfRange"
  by (simp add: heap_eval panicked_def)

text \<open>
  Claim C9. For every source that is a \<open>*ChatChannelData\<close> the method returns nil.
  Appending the empty list of message 4 to the empty list of message 2 with limit 1 and
  without \<open>TruncateTop\<close> does not return at all: it panics at line 32.
\<close>

theorem Merge_panics_on_ChatChannelData:
  "list_of chat_heap (Some 2) = Some [] \<and> list_of chat_heap (Some 4) = Some [] \<and>
   returned (Merge spare chat_heap (Some 2) (ChatChannelDataPtr (Some 4))
     (Some (opts_of False 1 False False))) = None \<and>
   panicked (Merge spare chat_heap (Some 2) (ChatChannelDataPtr (Some 4))
     (Some (opts_of False 1 False False))) = Some SliceBoundsOutOfRange"
  by (simp add: heap_eval returned_def panicked_def)

section \<open>Properties of the engine\<close>

subsection \<open>Removable map entries\<close>

text \<open>
  Claim C5. With \<open>shouldCheckRemovableMapField\<close>, the merged map contains a key exactly
  when the key is in the destination or in the source and is not marked as removed in
  the source; a source entry marked as removed deletes its key, and any other source
  entry is written through.
\<close>

theorem removable_map:
  assumes "ShouldCheckRemovableMapField opts"
  shows "(k \<in> dom (pkv (merge_payload opts P Q))) =
           ((k \<in> dom (pkv P) \<or> k \<in> dom (pkv Q)) \<and> \<not> (\<exists>v. pkv Q k = Some v \<and> Removed v)) \<and>
         (\<forall>v. pkv Q k = Some v \<longrightarrow>
            pkv (merge_payload opts P Q) k = (if Removed v then None else Some v))"
  using assms
  by (auto simp: merge_payload_def merge_map_def dom_def split: option.splits)

text \<open>The maps of the merge-options test: key 1 is deleted, key 2 is overwritten.\<close>

theorem removable_map_witness:
  "ShouldCheckRemovableMapField (opts_of False 0 False True) \<and>
   pkv scenario_src 1 = Some removed_entry \<and> Removed removed_entry \<and>
   pkv scenario_src 2 = Some (wrapper ''bbb'') \<and> \<not> Removed (wrapper ''bbb'') \<and>
   1 \<notin> dom (pkv (merge_payload (opts_of False 0 False True) scenario_dst scenario_src)) \<and>
   2 \<in> dom (pkv (merge_payload (opts_of False 0 False True) scenario_dst scenario_src)) \<and>
   pkv (merge_payload (opts_of False 0 False True) scenario_dst scenario_src) 2
     = Some (wrapper ''bbb'')"
proof -
  have 0: "ShouldCheckRemovableMapField (opts_of False 0 False True)"
    by (simp add: opts_of_def)
  have 1: "pkv scenario_src 1 = Some removed_entry" "Removed removed_entry"
    "pkv scenario_src 2 = Some (wrapper ''bbb'')" "\<not> Removed (wrapper ''bbb'')"
    "1 \<in> dom (pkv scenario_dst)" "2 \<in> dom (pkv scenario_dst)"
    by (simp_all add: scenario_src_def scenario_dst_def removed_entry_def wrapper_def)
  from removable_map [OF 0, of 1 scenario_dst scenario_src]
    removable_map [OF 0, of 2 scenario_dst scenario_src]
  show ?thesis using 0 1 by auto
qed

subsection \<open>Coalescing\<close>

lemma take_append_take: "take n (xs @ take n ys) = take n (xs @ ys)"
  by (simp add: min_def)

lemma take_take_append: "take n (take n xs @ ys) = take n (xs @ ys)"
  by (cases "n \<le> length xs") (simp_all add: min_def)

lemma lastn_rev: "drop (length xs - n) xs = rev (take n (rev xs))"
  by (simp add: rev_take)

lemma lim_alt:
  "limit_list opts xs =
     (if ListSizeLimit opts = 0 then xs
      else if TruncateTop opts then rev (take (unat (ListSizeLimit opts)) (rev xs))
      else take (unat (ListSizeLimit opts)) xs)"
  by (auto simp: limit_list_def Let_def lastn_rev unat_gt_0)

lemma lim_idem: "limit_list opts (limit_list opts xs) = limit_list opts xs"
  by (simp add: lim_alt)

lemma lim_append_lim: "limit_list opts (xs @ limit_list opts ys) = limit_list opts (xs @ ys)"
  using take_append_take [of "unat (ListSizeLimit opts)" xs ys]
    take_take_append [of "unat (ListSizeLimit opts)" "rev ys" "rev xs"]
  by (simp add: lim_alt del: take_append)

lemma lim_lim_append: "limit_list opts (limit_list opts xs @ ys) = limit_list opts (xs @ ys)"
  using take_take_append [of "unat (ListSizeLimit opts)" xs ys]
    take_append_take [of "unat (ListSizeLimit opts)" "rev ys" "rev xs"]
  by (simp add: lim_alt del: take_append)

lemma merge_list_assoc:
  "merge_list opts d (merge_list opts c u) = merge_list opts (merge_list opts d c) u"
  by (simp add: merge_list_def lim_idem lim_append_lim lim_lim_append)

lemma merge_list_empty: "merge_list opts d (merge_list opts [] u) = merge_list opts d u"
  by (simp add: merge_list_def lim_idem lim_append_lim)

lemma merge_scalar_assoc:
  "merge_scalar d (merge_scalar c u) = merge_scalar (merge_scalar d c) u"
  by (simp add: merge_scalar_def split: option.splits)

lemma merge_map_assoc:
  assumes "\<not> (ShouldCheckRemovableMapField opts \<and> (\<exists>v\<in>ran u. Removed v))"
  shows "merge_map opts d (merge_map opts c u) = merge_map opts (merge_map opts d c) u"
  using assms
  by (auto simp: merge_map_def fun_eq_iff ran_def split: option.splits)

lemma merge_map_empty:
  assumes "\<not> (ShouldCheckRemovableMapField opts \<and> (\<exists>v\<in>ran u. Removed v))"
  shows "merge_map opts d (merge_map opts Map.empty u) = merge_map opts d u"
  using assms
  by (auto simp: merge_map_def fun_eq_iff ran_def split: option.splits)

lemma merge_payload_assoc:
  assumes "\<not> (ShouldCheckRemovableMapField opts \<and> removes u)"
  shows "merge_payload opts d (merge_payload opts c u) = merge_payload opts (merge_payload opts d c) u"
  using assms
  by (simp add: merge_payload_def merge_list_assoc merge_scalar_assoc merge_map_assoc removes_def)

lemma merge_payload_empty:
  assumes "\<not> (ShouldCheckRemovableMapField opts \<and> removes u)"
  shows "merge_payload opts d (merge_payload opts empty_payload u) = merge_payload opts d u"
  using assms
  by (simp add: merge_payload_def merge_list_empty merge_map_empty removes_def empty_payload_def merge_scalar_def
       split: option.splits)

lemma merge_foldl:
  assumes "\<forall>u\<in>set us. \<not> (ShouldCheckRemovableMapField opts \<and> removes u)"
  shows "merge_payload opts d (foldl (merge_payload opts) c us) = foldl (merge_payload opts) (merge_payload opts d c) us"
  using assms
proof (induction us arbitrary: c)
  case Nil
  then show ?case by simp
next
  case (Cons u us)
  then show ?case by (simp add: merge_payload_assoc)
qed

lemma merge_payload_limited:
  "limit_list opts (plist (merge_payload opts d u)) = plist (merge_payload opts d u)"
  by (simp add: merge_payload_def merge_list_def lim_idem)

lemma merge_payload_keeps_unremoved:
  assumes "ShouldCheckRemovableMapField opts" "\<not> removes d"
  shows "\<not> removes (merge_payload opts d u)"
  using assms
  by (auto simp: removes_def merge_payload_def merge_map_def ran_def split: option.splits if_splits)

lemma foldl_keeps_unremoved:
  assumes "ShouldCheckRemovableMapField opts" "\<not> removes d"
  shows "\<not> removes (foldl (merge_payload opts) d us)"
  using assms
  by (induction us arbitrary: d) (simp_all add: merge_payload_keeps_unremoved)

lemma foldl_limited:
  assumes "limit_list opts (plist d) = plist d"
  shows "limit_list opts (plist (foldl (merge_payload opts) d us)) =
           plist (foldl (merge_payload opts) d us)"
  using assms
  by (induction us arbitrary: d) (simp_all add: merge_payload_limited)

lemma merge_into_empty:
  assumes l: "limit_list opts (plist c) = plist c"
    and r: "ShouldCheckRemovableMapField opts \<Longrightarrow> \<not> removes c"
  shows "merge_payload opts empty_payload c = c"
proof -
  have "merge_map opts Map.empty (pkv c) = pkv c"
  proof
    fix k
    show "merge_map opts Map.empty (pkv c) k = pkv c k"
      using r by (auto simp: merge_map_def removes_def ran_def split: option.splits)
  qed
  moreover have "merge_list opts [] (plist c) = plist c"
    using l by (simp add: merge_list_def)
  ultimately show ?thesis
    by (simp add: merge_payload_def empty_payload_def merge_scalar_def split: option.splits)
qed

lemma not_removes_empty: "\<not> removes empty_payload"
  by (simp add: removes_def empty_payload_def)

lemma coalesced_into_empty:
  assumes "us \<noteq> []"
  shows "merge_payload opts empty_payload (foldl (merge_payload opts) empty_payload us) =
           foldl (merge_payload opts) empty_payload us"
proof -
  obtain u vs where us: "us = u # vs" using assms by (cases us) auto
  have "limit_list opts (plist (foldl (merge_payload opts) empty_payload us)) =
          plist (foldl (merge_payload opts) empty_payload us)"
    unfolding us by (simp add: foldl_limited merge_payload_limited)
  then show ?thesis
    using foldl_keeps_unremoved [OF _ not_removes_empty]
    by (intro merge_into_empty) simp_all
qed

text \<open>
  Where the invariant of \<open>SliceSince\<close> does hold: for a cursor within the log, when the
  destination is the empty payload, or \<open>shouldCheckRemovableMapField\<close> is off, or none
  of the updates from the cursor on carries a map entry marked as removed.
\<close>

lemma coalescing_without_pending_removal:
  assumes k: "k \<le> length (updateLog d)"
    and nr: "dst = empty_payload \<or> \<not> ShouldCheckRemovableMapField opts \<or>
             (\<forall>u\<in>set (drop k (updateLog d)). \<not> removes (delta u))"
  shows "merge_coalesced opts dst (fst (SliceSince opts d k)) =
           merge_each opts dst (drop k (updateLog d))"
proof (cases "drop k (updateLog d)")
  case Nil
  then have "k = length (updateLog d)" using k by simp
  then show ?thesis
    by (simp add: SliceSince_def merge_coalesced_def merge_each_def)
next
  case (Cons u us)
  then have ne: "k \<noteq> length (updateLog d)" by auto
  show ?thesis
  proof (cases "dst = empty_payload")
    case True
    have "map delta (u # us) \<noteq> []" by simp
    from coalesced_into_empty [OF this, of opts] show ?thesis
      using ne by (simp add: SliceSince_def merge_coalesced_def merge_each_def Cons True)
  next
    case False
    then have all: "\<forall>p\<in>set (map delta (u # us)).
        \<not> (ShouldCheckRemovableMapField opts \<and> removes p)"
      using nr Cons by auto
    then have u: "\<not> (ShouldCheckRemovableMapField opts \<and> removes (delta u))" by simp
    have us: "\<forall>p\<in>set (map delta us). \<not> (ShouldCheckRemovableMapField opts \<and> removes p)"
      using all by simp
    show ?thesis
      using ne
      by (simp add: SliceSince_def merge_coalesced_def merge_each_def Cons merge_foldl [OF us]
          merge_payload_empty [OF u])
  qed
qed


subsection \<open>Fan-out\<close>

lemma Subscription_New_initial:
  "\<not> hasReceivedInitial (Subscription_New ch c ms) \<and>
   cursorIndex (Subscription_New ch c ms) = length (updateLog (data ch))"
  by (simp add: Subscription_New_def)

lemma connection_fan_out [simp]: "connection (fst (fan_out opts d now s)) = connection s"
  by (simp add: fan_out_def SliceSince_def)

lemma fst_fan_out_all:
  "fst (fan_out_all opts d now ss) = map (\<lambda>s. fst (fan_out opts d now s)) ss"
  by (induction ss) (simp_all add: case_prod_unfold Let_def)

lemma received_fan_out_all:
  "received c (snd (fan_out_all opts d now ss)) =
     concat (map (\<lambda>s. case snd (fan_out opts d now s) of None \<Rightarrow> [] | Some p \<Rightarrow> [p])
        (filter (\<lambda>s. connection s = c) ss))"
  by (induction ss) (auto simp: received_def case_prod_unfold Let_def split: option.splits)

lemma filter_distinct_connection:
  assumes "distinct (map connection ss)" "s \<in> set ss"
  shows "filter (\<lambda>x. connection x = connection s) ss = [s]"
  using assms
proof (induction ss)
  case Nil
  then show ?case by simp
next
  case (Cons x xs)
  show ?case
  proof (cases "x = s")
    case True
    have "\<forall>y\<in>set xs. connection y \<noteq> connection s"
      using Cons.prems(1) True by (auto simp: image_iff)
    then have "filter (\<lambda>x. connection x = connection s) xs = []"
      by (simp add: filter_empty_conv)
    then show ?thesis using True by simp
  next
    case False
    then have "s \<in> set xs" using Cons.prems(2) by simp
    moreover have "connection x \<noteq> connection s"
      using Cons.prems(1) \<open>s \<in> set xs\<close> by force
    ultimately show ?thesis using Cons by simp
  qed
qed

lemma find_distinct_connection:
  assumes "distinct (map connection ss)" "s \<in> set ss"
  shows "find (\<lambda>x. connection x = connection s) ss = Some s"
  using assms
  by (induction ss) auto

lemma min_cursor_le: "s \<in> set ss \<Longrightarrow> min_cursor ss \<le> cursorIndex s"
  by (induction ss rule: min_cursor.induct) auto

lemma Tick_subscription:
  assumes dist: "distinct (map connection (subscriptions ch))" and mem: "s \<in> set (subscriptions ch)"
  shows "received (connection s) (snd (Tick now ch)) =
           (case snd (fan_out (mergeOptions ch) (data ch) now s) of None \<Rightarrow> [] | Some p \<Rightarrow> [p])"
    and "subscription_of (fst (Tick now ch)) (connection s) =
           Some ((fst (fan_out (mergeOptions ch) (data ch) now s))
             \<lparr>cursorIndex := cursorIndex (fst (fan_out (mergeOptions ch) (data ch) now s)) -
                min_cursor (fst (fan_out_all (mergeOptions ch) (data ch) now (subscriptions ch)))\<rparr>)"
    and "min_cursor (fst (fan_out_all (mergeOptions ch) (data ch) now (subscriptions ch)))
           \<le> cursorIndex (fst (fan_out (mergeOptions ch) (data ch) now s))"
    and "updateLog (data (fst (Tick now ch))) =
           drop (min_cursor (fst (fan_out_all (mergeOptions ch) (data ch) now (subscriptions ch))))
             (updateLog (data ch))"
proof -
  let ?f = "\<lambda>s. fst (fan_out (mergeOptions ch) (data ch) now s)"
  let ?subs = "fst (fan_out_all (mergeOptions ch) (data ch) now (subscriptions ch))"
  let ?m = "min_cursor ?subs"
  let ?g = "\<lambda>s. s\<lparr>cursorIndex := cursorIndex s - ?m\<rparr>"
  show "received (connection s) (snd (Tick now ch)) =
           (case snd (fan_out (mergeOptions ch) (data ch) now s) of None \<Rightarrow> [] | Some p \<Rightarrow> [p])"
    using filter_distinct_connection [OF dist mem]
    by (simp add: Tick_def case_prod_unfold Let_def received_fan_out_all)
  have subs: "?subs = map ?f (subscriptions ch)"
    by (rule fst_fan_out_all)
  have d2: "distinct (map connection (map ?g ?subs))"
    using dist by (simp add: subs comp_def)
  have m2: "?g (?f s) \<in> set (map ?g ?subs)"
    using mem by (simp add: subs)
  have "find (\<lambda>x. connection x = connection (?g (?f s))) (map ?g ?subs) = Some (?g (?f s))"
    using d2 m2 by (rule find_distinct_connection)
  then show "subscription_of (fst (Tick now ch)) (connection s) = Some (?g (?f s))"
    by (simp add: subscription_of_def Tick_def case_prod_unfold Let_def)
  have "?f s \<in> set ?subs" using mem by (simp add: subs)
  then show "?m \<le> cursorIndex (?f s)" by (rule min_cursor_le)
  show "updateLog (data (fst (Tick now ch))) = drop ?m (updateLog (data ch))"
    by (simp add: Tick_def case_prod_unfold Let_def PruneBefore_def)
qed

subsection \<open>The invariant of a run\<close>

lemma consistent_new: "consistent (Channel_New initial options) (\<lambda>c. None)"
  by (simp add: consistent_def Channel_New_def)

lemma consistent_Subscribe:
  assumes "consistent ch g"
  shows "consistent (Subscribe ch c ms) (observe g ch (Subscribed c ms))"
proof (cases "c \<in> set (map connection (subscriptions ch))")
  case True
  define upd :: "Subscription \<Rightarrow> Subscription" where "upd = (\<lambda>s. if connection s = c
           then s\<lparr>fanOutIntervalMs := ms, nextFanOutAt := clock ch\<rparr> else s)"
  have c: "connection (upd s) = connection s" for s
    by (simp add: upd_def)
  have i: "in_step (upd s) p log = in_step s p log" for s p log
    by (simp add: upd_def in_step_def split: option.splits)
  have m: "connection \<circ> upd = connection"
    by (simp add: fun_eq_iff c)
  have S: "Subscribe ch c ms = ch\<lparr>subscriptions := map upd (subscriptions ch)\<rparr>"
    using True by (simp add: Subscribe_def upd_def)
  show ?thesis
    using assms True unfolding S consistent_def
    by (auto simp: c i m)
next
  case False
  then show ?thesis
    using assms
    by (auto simp: consistent_def Subscribe_def in_step_def Subscription_New_def)
qed

lemma consistent_Unsubscribe:
  assumes "consistent ch g"
  shows "consistent (Unsubscribe ch c) (observe g ch (Unsubscribed c))"
  using assms by (auto simp: consistent_def Unsubscribe_def distinct_map_filter)

lemma consistent_Publish:
  assumes "consistent ch g"
  shows "consistent (Publish ch u t origin) (observe g ch (Published u t origin))"
proof (cases "t < lastUpdateTime (data ch)")
  case True
  then show ?thesis using assms by (simp add: Publish_def OnUpdate_def)
next
  case False
  then show ?thesis
    using assms
    by (auto simp: consistent_def Publish_def OnUpdate_def in_step_def split: option.splits)
qed

lemma fan_out_in_step:
  assumes "in_step s p (updateLog d)"
  shows "in_step (fst (fan_out opts d now s))
           (case snd (fan_out opts d now s) of None \<Rightarrow> p | Some x \<Rightarrow> Some [])
           (updateLog d)"
  using assms
  by (cases p) (auto simp: in_step_def fan_out_def SliceSince_def)

lemma in_step_shift:
  assumes "in_step s p log" "m \<le> cursorIndex s"
  shows "in_step (s\<lparr>cursorIndex := cursorIndex s - m\<rparr>) p (drop m log)"
  using assms
  by (cases p) (auto simp: in_step_def)

lemma consistent_Tick:
  assumes c: "consistent ch g"
  shows "consistent (fst (Tick now ch)) (observe g ch (Ticked now))"
proof -
  let ?f = "\<lambda>s. fst (fan_out (mergeOptions ch) (data ch) now s)"
  let ?subs = "fst (fan_out_all (mergeOptions ch) (data ch) now (subscriptions ch))"
  let ?m = "min_cursor ?subs"
  let ?g = "\<lambda>s. s\<lparr>cursorIndex := cursorIndex s - ?m\<rparr>"
  have dist: "distinct (map connection (subscriptions ch))"
    using c by (simp add: consistent_def)
  have subs: "?subs = map ?f (subscriptions ch)"
    by (rule fst_fan_out_all)
  have S: "subscriptions (fst (Tick now ch)) = map ?g ?subs"
    and L: "updateLog (data (fst (Tick now ch))) = drop ?m (updateLog (data ch))"
    by (simp_all add: Tick_def case_prod_unfold Let_def PruneBefore_def)
  have d2: "distinct (map connection (subscriptions (fst (Tick now ch))))"
    using dist by (simp add: S subs comp_def)
  have "in_step s' (observe g ch (Ticked now) (connection s')) (updateLog (data (fst (Tick now ch))))"
    if "s' \<in> set (subscriptions (fst (Tick now ch)))" for s'
  proof -
    from that obtain s where s: "s \<in> set (subscriptions ch)" and s': "s' = ?g (?f s)"
      by (auto simp: S subs)
    note T = Tick_subscription [OF dist s, of now]
    have "in_step s (g (connection s)) (updateLog (data ch))"
      using c s by (simp add: consistent_def)
    from fan_out_in_step [OF this, of "mergeOptions ch" now]
    have "in_step (?f s) (observe g ch (Ticked now) (connection s)) (updateLog (data ch))"
      by (simp add: T(1) split: option.splits)
    from in_step_shift [OF this T(3)] show ?thesis
      by (simp add: s' L)
  qed
  then show ?thesis
    using d2 by (simp add: consistent_def)
qed

lemma consistent_apply_event:
  assumes "consistent ch g"
  shows "consistent (fst (apply_event ch e)) (observe g ch e)"
proof (cases e)
  case (Subscribed c ms)
  then show ?thesis using consistent_Subscribe [OF assms] by simp
next
  case (Unsubscribed c)
  then show ?thesis using consistent_Unsubscribe [OF assms] by simp
next
  case (Published u t origin)
  then show ?thesis using consistent_Publish [OF assms] by simp
next
  case (Ticked now)
  then show ?thesis using consistent_Tick [OF assms] by simp
qed

lemma consistent_run:
  assumes "consistent ch g"
  shows "consistent (fst (run ch g es)) (snd (run ch g es))"
  using assms
  by (induction es arbitrary: ch g) (simp_all add: consistent_apply_event)

lemma consistent_after:
  "consistent (channel_after initial options es) (history_after initial options es)"
  unfolding channel_after_def history_after_def
  by (rule consistent_run [OF consistent_new])

text \<open>
  Claim C7. After any run of requests from a new channel, a tick sends to a subscribed
  connection nothing when its subscription is not due; when it is due, it sends exactly
  one message, a clone of the channel's current payload at that tick, if the connection
  has been sent nothing since its subscription was created, and otherwise only the
  coalesced payload of the updates applied since the last message sent to it (nothing
  when there are none).
  Whenever a message is sent, the cursor of the subscription afterwards is at the end of
  the log.
\<close>

theorem fan_out_delivery:
  assumes mem: "s \<in> set (subscriptions (channel_after initial options es))"
  shows "received (connection s) (snd (Tick now (channel_after initial options es))) =
           (if now < nextFanOutAt s then []
            else case history_after initial options es (connection s) of
                   None \<Rightarrow> [Clone (current (data (channel_after initial options es)))]
                 | Some us \<Rightarrow>
                     if us = [] then []
                     else [foldl (merge_payload (mergeOptions (channel_after initial options es)))
                             empty_payload us]) \<and>
         (received (connection s) (snd (Tick now (channel_after initial options es))) \<noteq> [] \<longrightarrow>
            (\<exists>s'. subscription_of (fst (Tick now (channel_after initial options es)))
                     (connection s) = Some s' \<and>
                  cursorIndex s' =
                    length (updateLog (data (fst (Tick now (channel_after initial options es)))))))"
proof -
  define ch where "ch = channel_after initial options es"
  define g where "g = history_after initial options es"
  have c: "consistent ch g"
    unfolding ch_def g_def by (rule consistent_after)
  have mem': "s \<in> set (subscriptions ch)" using mem by (simp add: ch_def)
  have dist: "distinct (map connection (subscriptions ch))"
    using c by (simp add: consistent_def)
  have i: "in_step s (g (connection s)) (updateLog (data ch))"
    using c mem' by (simp add: consistent_def)
  note T = Tick_subscription [OF dist mem', of now]
  let ?r = "fan_out (mergeOptions ch) (data ch) now s"
  have r: "snd ?r =
      (if now < nextFanOutAt s then None
       else case g (connection s) of
              None \<Rightarrow> Some (Clone (current (data ch)))
            | Some us \<Rightarrow>
                if us = [] then None
                else Some (foldl (merge_payload (mergeOptions ch)) empty_payload us))"
    using i by (cases "g (connection s)") (auto simp: in_step_def fan_out_def SliceSince_def)
  have cur: "cursorIndex (fst ?r) = length (updateLog (data ch))" if "snd ?r \<noteq> None"
    using that i by (auto simp: in_step_def fan_out_def SliceSince_def split: if_splits)
  have 1: "received (connection s) (snd (Tick now ch)) =
           (if now < nextFanOutAt s then []
            else case g (connection s) of
                   None \<Rightarrow> [Clone (current (data ch))]
                 | Some us \<Rightarrow>
                     if us = [] then []
                     else [foldl (merge_payload (mergeOptions ch)) empty_payload us])"
    by (simp add: T(1) r split: option.splits)
  have 2: "\<exists>s'. subscription_of (fst (Tick now ch)) (connection s) = Some s' \<and>
                  cursorIndex s' = length (updateLog (data (fst (Tick now ch))))"
    if "received (connection s) (snd (Tick now ch)) \<noteq> []"
  proof -
    have "snd ?r \<noteq> None" using that by (simp add: T(1) split: option.splits)
    from cur [OF this] show ?thesis
      using T(3) by (simp add: T(2) T(4))
  qed
  show ?thesis
    using 1 2 unfolding ch_def g_def by blast
qed

text \<open>
  The fan-out test of the sources, replayed: the messages sent to connections 1 and 2 at
  the ticks at 100, 150, 200 and 250 ms.
\<close>

lemmas fan_eval = channel_after_def history_after_def test_events_def test_initial_def
  test_options_def opts_of_def Channel_New_def Init_def Subscribe_def Subscription_New_def
  Publish_def OnUpdate_def Tick_def fan_out_def SliceSince_def PruneBefore_def fanOutInterval_def
  received_def Clone_def text_update_def merge_payload_def merge_scalar_def merge_list_def
  limit_list_def merge_map_def empty_payload_def Let_def

lemma fan_out_test_replay:
  "received 1 (snd (Tick 100000000 (channel_after test_initial test_options (take 2 test_events))))
     = [test_initial]"
  "received 2 (snd (Tick 100000000 (channel_after test_initial test_options (take 2 test_events))))
     = []"
  "received 1 (snd (Tick 150000000 (channel_after test_initial test_options (take 4 test_events))))
     = []"
  "received 2 (snd (Tick 150000000 (channel_after test_initial test_options (take 4 test_events))))
     = [test_initial]"
  "received 1 (snd (Tick 200000000 (channel_after test_initial test_options (take 6 test_events))))
     = [text_update ''b'']"
  "received 2 (snd (Tick 200000000 (channel_after test_initial test_options (take 6 test_events))))
     = []"
  "received 1 (snd (Tick 250000000 (channel_after test_initial test_options test_events)))
     = [text_update ''c'']"
  "received 2 (snd (Tick 250000000 (channel_after test_initial test_options test_events)))
     = [text_update ''c'']"
  by (simp_all add: fan_eval)

lemma test_channel_after_subscribing:
  "subscriptions (channel_after test_initial test_options (take 4 test_events)) ! 2 = new_subscriber"
  "history_after test_initial test_options (take 4 test_events) 2 = None"
  "current (data (channel_after test_initial test_options (take 4 test_events))) = test_initial"
  by (simp_all add: fan_eval new_subscriber_def)

lemma test_channel_at_end:
  "subscriptions (channel_after test_initial test_options test_events) ! 2 = late_subscriber"
  "history_after test_initial test_options test_events 2 =
     Some [text_update ''b'', text_update ''c'']"
  by (simp_all add: fan_eval late_subscriber_def)

theorem fan_out_delivery_witness:
  "new_subscriber \<in> set (subscriptions (channel_after test_initial test_options
     (take 4 test_events))) \<and>
   late_subscriber \<in> set (subscriptions (channel_after test_initial test_options test_events)) \<and>
   \<not> 150000000 < nextFanOutAt new_subscriber \<and>
   \<not> 250000000 < nextFanOutAt late_subscriber \<and>
   history_after test_initial test_options (take 4 test_events) 2 = None \<and>
   history_after test_initial test_options test_events 2 =
     Some [text_update ''b'', text_update ''c''] \<and>
   received 2 (snd (Tick 150000000 (channel_after test_initial test_options
     (take 4 test_events)))) = [test_initial] \<and>
   received 2 (snd (Tick 250000000 (channel_after test_initial test_options test_events)))
     = [text_update ''c''] \<and>
   (\<exists>s'. subscription_of (fst (Tick 250000000
            (channel_after test_initial test_options test_events))) 2 = Some s' \<and>
         cursorIndex s' = length (updateLog (data (fst (Tick 250000000
            (channel_after test_initial test_options test_events))))))"
proof -
  let ?ch4 = "channel_after test_initial test_options (take 4 test_events)"
  let ?ch = "channel_after test_initial test_options test_events"
  have l4: "length (subscriptions ?ch4) = 3" and l: "length (subscriptions ?ch) = 3"
    by (simp_all add: fan_eval)
  have m4: "new_subscriber \<in> set (subscriptions ?ch4)"
    using nth_mem [of 2 "subscriptions ?ch4"] l4 test_channel_after_subscribing(1) by simp
  have m: "late_subscriber \<in> set (subscriptions ?ch)"
    using nth_mem [of 2 "subscriptions ?ch"] l test_channel_at_end(1) by simp
  have c: "connection new_subscriber = 2" "connection late_subscriber = 2"
    and d: "\<not> 150000000 < nextFanOutAt new_subscriber"
      "\<not> 250000000 < nextFanOutAt late_subscriber"
    by (simp_all add: new_subscriber_def late_subscriber_def)
  have o: "mergeOptions ?ch = test_options"
    by (simp add: fan_eval)
  have f: "merge_payload test_options
      (merge_payload test_options empty_payload (text_update ''b'')) (text_update ''c'')
      = text_update ''c''"
    by (simp add: fan_eval)
  have r4: "received 2 (snd (Tick 150000000 ?ch4)) = [test_initial]"
    using fan_out_delivery [OF m4, of 150000000] d(1)
    by (simp add: c test_channel_after_subscribing Clone_def)
  have r: "received 2 (snd (Tick 250000000 ?ch)) = [text_update ''c'']"
    using fan_out_delivery [OF m, of 250000000] d(2)
    by (simp add: c test_channel_at_end o f)
  have e: "\<exists>s'. subscription_of (fst (Tick 250000000 ?ch)) 2 = Some s' \<and>
         cursorIndex s' = length (updateLog (data (fst (Tick 250000000 ?ch))))"
    using fan_out_delivery [OF m, of 250000000] r by (simp add: c)
  show ?thesis
    using m4 m d test_channel_after_subscribing(2) test_channel_at_end(2) r4 r e by blast
qed

end
